theory Spec2Isabelle
  imports Complex_Main
begin

text \<open>
  The program wraps a Selenium session in a \<open>ScreenshotDriver\<close>, which saves a
  screenshot before each important action, and the elements the session returns in
  \<open>WrappedElement\<close>s, which do the same before an interaction. When the session is
  closed, a loop reads every screenshot of the history, asks a text reader where it finds
  text, draws a rectangle and the text for every detection and writes the annotated
  image beside the screenshot. The wrapped session, the elements, the clock, the reader
  and the files are collaborators: what they answer is an input of the model.
\<close>

section \<open>Strings, numbers and paths as the program uses them\<close>

text \<open>
  A Python \<open>str\<close> is a \<open>string\<close>: one \<open>char\<close> per code point, for the code points
  below 256. \<open>str.isalnum\<close> is Python's table on that range: the ASCII digits and
  letters, and the Latin-1 letters, superscript digits and vulgar fractions.
\<close>

definition isdigit :: "char \<Rightarrow> bool" where
  "isdigit c = (let n = (of_char c :: nat) in 48 \<le> n \<and> n \<le> 57)"

definition isalnum :: "char \<Rightarrow> bool" where
  "isalnum c =
     (let n = (of_char c :: nat) in
        (48 \<le> n \<and> n \<le> 57) \<or> (65 \<le> n \<and> n \<le> 90) \<or> (97 \<le> n \<and> n \<le> 122) \<or>
        n = 170 \<or> n = 178 \<or> n = 179 \<or> n = 181 \<or> n = 185 \<or> n = 186 \<or>
        (188 \<le> n \<and> n \<le> 190) \<or> (192 \<le> n \<and> n \<le> 214) \<or>
        (216 \<le> n \<and> n \<le> 246) \<or> (248 \<le> n \<and> n \<le> 255))"

text \<open>\<open>str(n)\<close> for a natural number: its decimal digits.\<close>

definition digit_char :: "nat \<Rightarrow> char" where
  "digit_char d = char_of (48 + d)"

fun str_nat :: "nat \<Rightarrow> string" where
  "str_nat n = (if n < 10 then [digit_char n]
                else str_nat (n div 10) @ [digit_char (n mod 10)])"

declare str_nat.simps [simp del]

text \<open>The format \<open>0wd\<close>: at least \<open>w\<close> digits, zeros in front.\<close>

definition zfill :: "nat \<Rightarrow> string \<Rightarrow> string" where
  "zfill w s = replicate (w - length s) (CHR ''0'') @ s"

definition fmt_04d :: "nat \<Rightarrow> string" where
  "fmt_04d n = zfill 4 (str_nat n)"

text \<open>\<open>sep.join(xs)\<close>.\<close>

fun join :: "string \<Rightarrow> string list \<Rightarrow> string" where
  "join sep [] = []"
| "join sep [x] = x"
| "join sep (x # y # ys) = x @ sep @ join sep (y # ys)"

text \<open>
  \<open>datetime.now()\<close> is read from the environment; \<open>strftime("%Y%m%d_%H%M%S_%f")\<close>
  writes its fields zero-padded (the year to four digits, which every year from 1000 to
  9999 has anyway, and the microsecond to six).
\<close>

record datetime =
  year :: nat
  month :: nat
  day :: nat
  hour :: nat
  minute :: nat
  second :: nat
  microsecond :: nat

definition strftime :: "datetime \<Rightarrow> string" where
  "strftime t =
     zfill 4 (str_nat (year t)) @ zfill 2 (str_nat (month t)) @ zfill 2 (str_nat (day t)) @
     ''_'' @ zfill 2 (str_nat (hour t)) @ zfill 2 (str_nat (minute t)) @
     zfill 2 (str_nat (second t)) @ ''_'' @ zfill 6 (str_nat (microsecond t))"

text \<open>The slice \<open>s[:-3]\<close>.\<close>

definition drop_last3 :: "string \<Rightarrow> string" where
  "drop_last3 s = take (length s - 3) s"

definition timestamp :: "datetime \<Rightarrow> string" where
  "timestamp t = drop_last3 (strftime t)"

text \<open>
  A \<open>pathlib.Path\<close> is its string form, \<open>str(path)\<close>: components separated by
  \<open>/\<close>, no trailing separator except for the root. \<open>path_join\<close> is the operator
  \<open>/\<close> for a relative right operand, \<open>path_name\<close> is \<open>.name\<close>, and
  \<open>with_name\<close> raises \<open>ValueError\<close> when the path has no name or the new name is not
  a valid one.
\<close>

datatype exn = Exn string

definition path_join :: "string \<Rightarrow> string \<Rightarrow> string" where
  "path_join d n =
     (if d = [] \<or> d = ''.'' then n
      else if last d = CHR ''/'' then d @ n
      else d @ ''/'' @ n)"

definition path_name :: "string \<Rightarrow> string" where
  "path_name p = rev (takeWhile (\<lambda>c. c \<noteq> CHR ''/'') (rev p))"

definition path_dir :: "string \<Rightarrow> string" where
  "path_dir p = rev (dropWhile (\<lambda>c. c \<noteq> CHR ''/'') (rev p))"

definition with_name :: "string \<Rightarrow> string \<Rightarrow> exn + string" where
  "with_name p n =
     (if path_name p = [] \<or> path_name p = ''.'' then Inl (Exn ''ValueError'')
      else if n = [] \<or> n = ''.'' \<or> CHR ''/'' \<in> set n then Inl (Exn ''ValueError'')
      else Inr (path_dir p @ n))"

text \<open>
  The sequence number a file name carries: the decimal number its leading digits spell.
\<close>

definition digit_val :: "char \<Rightarrow> nat" where
  "digit_val c = of_char c - 48"

definition parse_nat :: "string \<Rightarrow> nat" where
  "parse_nat s = foldl (\<lambda>acc c. 10 * acc + digit_val c) 0 s"

definition seq_of :: "string \<Rightarrow> nat" where
  "seq_of p = parse_nat (takeWhile isdigit (path_name p))"

section \<open>The screenshot driver\<close>

text \<open>
  Python's truthiness of an optional string: \<open>None\<close> and the empty string are false.
  \<open>x or d\<close> is \<open>x\<close> when \<open>x\<close> is true and \<open>d\<close> otherwise.
\<close>

definition truthy :: "string option \<Rightarrow> bool" where
  "truthy l = (case l of None \<Rightarrow> False | Some s \<Rightarrow> s \<noteq> [])"

definition or_else :: "string option \<Rightarrow> string \<Rightarrow> string" where
  "or_else l d = (if truthy l then the l else d)"

definition sanitize :: "string \<Rightarrow> string" where
  "sanitize l =
     map (\<lambda>c. if isalnum c \<or> c = CHR ''-'' \<or> c = CHR ''_'' then c else CHR ''_'') l"

record sdriver =
  driver :: nat
  out_dir :: string
  counter :: nat
  history :: "string list"

text \<open>
  \<open>_next_name\<close>: the counter is incremented, the clock is read (\<open>now\<close> is what
  \<open>datetime.now()\<close> returned), and the path is built. The result is the updated
  object and the path.
\<close>

definition next_name :: "sdriver \<Rightarrow> datetime \<Rightarrow> string option \<Rightarrow> sdriver \<times> string" where
  "next_name s now label =
     (let s' = s\<lparr>counter := counter s + 1\<rparr>;
          ts = timestamp now;
          label' = (if truthy label then sanitize (the label) else ''action'');
          name = fmt_04d (counter s') @ ''_'' @ ts @ ''_'' @ label' @ ''.png''
      in (s', path_join (out_dir s') name))"

text \<open>
  The values that cross the proxy's interface. \<open>Handle\<close> is an object of a
  collaborator (a remote element, a bound method); \<open>Wrapped el r label\<close> is a
  \<open>WrappedElement\<close> with its fields \<open>_element\<close>, \<open>_sdriver\<close> (a reference) and
  \<open>_label\<close>.
\<close>

datatype val =
    PyNone
  | PyBool bool
  | PyInt int
  | PyStr string
  | PyPath string
  | Handle nat
  | PyList "val list"
  | Wrapped val nat "string option"

type_synonym args = "val list \<times> (string \<times> val) list"

text \<open>
  What the program does to its collaborators, in order: a method called on the wrapped
  session of a proxy, an attribute read from it, the same for a wrapped element, the
  creation of the output directory, and a log line.
\<close>

datatype event =
    Mkdir string
  | SessionCall nat string args
  | SessionAttr nat string
  | ElementCall val string args
  | ElementAttr val string
  | LogInfo string

text \<open>
  The \<open>ScreenshotDriver\<close> objects live in a store, since a \<open>WrappedElement\<close> holds
  a reference to the one that made it.
\<close>

record world =
  objs :: "nat \<Rightarrow> sdriver"
  trace :: "event list"

text \<open>
  What the environment answers during one call: the clock, what \<open>save_screenshot\<close>
  does, and what the delegated call or attribute access does (\<open>Inl\<close> is a raise).
\<close>

record env =
  clock :: datetime
  save_reply :: "exn + val"
  reply :: "exn + val"

definition emit :: "world \<Rightarrow> event \<Rightarrow> world" where
  "emit w ev = w\<lparr>trace := trace w @ [ev]\<rparr>"

text \<open>
  \<open>__init__\<close>: the output directory is created, with its parents, and the object
  starts with the counter 0 and an empty history. When \<open>mkdir\<close> raises there is no
  object.
\<close>

definition new_sdriver ::
    "world \<Rightarrow> nat \<Rightarrow> nat \<Rightarrow> string \<Rightarrow> exn + val \<Rightarrow> world \<times> (exn + val)" where
  "new_sdriver w r d dir mkdir_reply =
     (let w1 = emit w (Mkdir dir) in
      case mkdir_reply of
        Inl x \<Rightarrow> (w1, Inl x)
      | Inr _ \<Rightarrow>
          (w1\<lparr>objs := (objs w1)(r := \<lparr>driver = d, out_dir = dir, counter = 0, history = []\<rparr>)\<rparr>,
           Inr PyNone))"

text \<open>
  \<open>screenshot\<close>: the next name is taken, the wrapped session writes the file, and only
  then is the path logged and appended to the history. What \<open>save_screenshot\<close>
  returns is not looked at.
\<close>

definition screenshot :: "world \<Rightarrow> nat \<Rightarrow> env \<Rightarrow> string option \<Rightarrow> world \<times> (exn + val)" where
  "screenshot w r e label =
     (let (s1, path) = next_name (objs w r) (clock e) label;
          w1 = emit (w\<lparr>objs := (objs w)(r := s1)\<rparr>)
                 (SessionCall (driver s1) ''save_screenshot'' ([PyStr path], []))
      in case save_reply e of
           Inl x \<Rightarrow> (w1, Inl x)
         | Inr _ \<Rightarrow>
             (let w2 = emit w1 (LogInfo (''Saved screenshot: '' @ path));
                  s2 = (objs w2 r)\<lparr>history := history (objs w2 r) @ [path]\<rparr>
              in (w2\<lparr>objs := (objs w2)(r := s2)\<rparr>, Inr (PyPath path))))"

definition get :: "world \<Rightarrow> nat \<Rightarrow> env \<Rightarrow> string \<Rightarrow> world \<times> (exn + val)" where
  "get w r e url =
     (case screenshot w r e (Some (''before_get_'' @ url)) of
        (w1, Inl x) \<Rightarrow> (w1, Inl x)
      | (w1, Inr _) \<Rightarrow>
          (emit w1 (SessionCall (driver (objs w1 r)) ''get'' ([PyStr url], [])), reply e))"

definition find_element ::
    "world \<Rightarrow> nat \<Rightarrow> env \<Rightarrow> args \<Rightarrow> string option \<Rightarrow> world \<times> (exn + val)" where
  "find_element w r e a label =
     (case screenshot w r e (Some (or_else label ''before_find_element'')) of
        (w1, Inl x) \<Rightarrow> (w1, Inl x)
      | (w1, Inr _) \<Rightarrow>
          (let w2 = emit w1 (SessionCall (driver (objs w1 r)) ''find_element'' a)
           in case reply e of
                Inl x \<Rightarrow> (w2, Inl x)
              | Inr el \<Rightarrow> (w2, Inr (Wrapped el r label))))"

text \<open>
  The list comprehension of \<open>find_elements\<close> iterates over what the session returned:
  a list gives its items, a string its characters, anything else is not iterable.
\<close>

definition iter :: "val \<Rightarrow> exn + val list" where
  "iter v = (case v of
               PyList xs \<Rightarrow> Inr xs
             | PyStr s \<Rightarrow> Inr (map (\<lambda>c. PyStr [c]) s)
             | _ \<Rightarrow> Inl (Exn ''TypeError''))"

definition find_elements ::
    "world \<Rightarrow> nat \<Rightarrow> env \<Rightarrow> args \<Rightarrow> string option \<Rightarrow> world \<times> (exn + val)" where
  "find_elements w r e a label =
     (case screenshot w r e (Some (or_else label ''before_find_elements'')) of
        (w1, Inl x) \<Rightarrow> (w1, Inl x)
      | (w1, Inr _) \<Rightarrow>
          (let w2 = emit w1 (SessionCall (driver (objs w1 r)) ''find_elements'' a)
           in case reply e of
                Inl x \<Rightarrow> (w2, Inl x)
              | Inr els \<Rightarrow>
                  (case iter els of
                     Inl x \<Rightarrow> (w2, Inl x)
                   | Inr xs \<Rightarrow> (w2, Inr (PyList (map (\<lambda>el. Wrapped el r label) xs))))))"

definition implicitly_wait :: "world \<Rightarrow> nat \<Rightarrow> env \<Rightarrow> val \<Rightarrow> world \<times> (exn + val)" where
  "implicitly_wait w r e seconds =
     (emit w (SessionCall (driver (objs w r)) ''implicitly_wait'' ([seconds], [])), reply e)"

definition quit :: "world \<Rightarrow> nat \<Rightarrow> env \<Rightarrow> world \<times> (exn + val)" where
  "quit w r e =
     (case screenshot w r e (Some ''before_quit'') of
        (w1, Inl x) \<Rightarrow> (w1, Inl x)
      | (w1, Inr _) \<Rightarrow>
          (emit w1 (SessionCall (driver (objs w1 r)) ''quit'' ([], [])), reply e))"

text \<open>\<open>ScreenshotDriver.__getattr__\<close>: the attribute of the wrapped session.\<close>

definition sdriver_getattr :: "world \<Rightarrow> nat \<Rightarrow> env \<Rightarrow> string \<Rightarrow> world \<times> (exn + val)" where
  "sdriver_getattr w r e item = (emit w (SessionAttr (driver (objs w r)) item), reply e)"

subsection \<open>The wrapped element\<close>

text \<open>
  The methods of \<open>WrappedElement\<close> take the object's three fields. The keys of
  \<open>send_keys\<close> are strings, so \<open>str\<close> leaves them as they are.
\<close>

definition click ::
    "world \<Rightarrow> env \<Rightarrow> val \<Rightarrow> nat \<Rightarrow> string option \<Rightarrow> world \<times> (exn + val)" where
  "click w e el r label =
     (case screenshot w r e (Some (or_else label ''before_click'')) of
        (w1, Inl x) \<Rightarrow> (w1, Inl x)
      | (w1, Inr _) \<Rightarrow> (emit w1 (ElementCall el ''click'' ([], [])), reply e))"

definition send_keys ::
    "world \<Rightarrow> env \<Rightarrow> val \<Rightarrow> nat \<Rightarrow> string option \<Rightarrow> string list \<Rightarrow> world \<times> (exn + val)" where
  "send_keys w e el r label keys =
     (case screenshot w r e
             (Some (or_else label (''before_send_keys_'' @ join ''_'' keys))) of
        (w1, Inl x) \<Rightarrow> (w1, Inl x)
      | (w1, Inr _) \<Rightarrow>
          (emit w1 (ElementCall el ''send_keys'' (map PyStr keys, [])), reply e))"

definition submit ::
    "world \<Rightarrow> env \<Rightarrow> val \<Rightarrow> nat \<Rightarrow> string option \<Rightarrow> world \<times> (exn + val)" where
  "submit w e el r label =
     (case screenshot w r e (Some (or_else label ''before_submit'')) of
        (w1, Inl x) \<Rightarrow> (w1, Inl x)
      | (w1, Inr _) \<Rightarrow> (emit w1 (ElementCall el ''submit'' ([], [])), reply e))"

text \<open>\<open>WrappedElement.__getattr__\<close>: the attribute of the wrapped element.\<close>

definition element_getattr ::
    "world \<Rightarrow> env \<Rightarrow> val \<Rightarrow> nat \<Rightarrow> string option \<Rightarrow> string \<Rightarrow> world \<times> (exn + val)" where
  "element_getattr w e el r label item = (emit w (ElementAttr el item), reply e)"

subsection \<open>Attribute lookup and calls on the proxies\<close>

text \<open>
  The lookup of \<open>proxy.item\<close>. Python calls \<open>__getattr__\<close> only for a name that
  normal lookup does not find on the object. On an instance of either class normal
  lookup finds two kinds of names.

  The first kind is what the source gives the class and its instances: the fields that
  \<open>__init__\<close> sets, the methods, and \<open>__doc__\<close>, since both class statements start
  with a docstring. These are the lists \<open>sdriver_members\<close> and \<open>element_members\<close>.

  The second kind is what Python gives every instance of a class written with
  \<open>class\<close>: the names of the class \<open>object\<close> (\<open>__class__\<close>, \<open>__repr__\<close>,
  \<open>__eq__\<close>, \<open>__hash__\<close>, ...) and those the class statement adds (\<open>__dict__\<close>,
  \<open>__module__\<close>, \<open>__weakref__\<close>). They are not written in the source and change with
  the version of the interpreter, so the lookup takes them as the parameter
  \<open>builtin\<close>; \<open>python_builtin\<close> is that table for CPython 3.11, the names in
  \<open>dir\<close> of an instance of an empty class.

  For a name of either kind the lookup gives the proxy's own member (\<open>None\<close> here) and
  the wrapped object is not asked; for every other name it gives what \<open>__getattr__\<close>
  returns.
\<close>

definition sdriver_members :: "string list" where
  "sdriver_members =
     [''driver'', ''out_dir'', ''_counter'', ''history'', ''__doc__'', ''__init__'',
      ''_next_name'', ''screenshot'', ''get'', ''find_element'', ''find_elements'',
      ''implicitly_wait'', ''quit'', ''__getattr__'']"

definition element_members :: "string list" where
  "element_members =
     [''_element'', ''_sdriver'', ''_label'', ''__doc__'', ''__init__'', ''click'',
      ''send_keys'', ''submit'', ''__getattr__'']"

definition object_members :: "string list" where
  "object_members =
     [''__class__'', ''__delattr__'', ''__dict__'', ''__dir__'', ''__doc__'', ''__eq__'',
      ''__format__'', ''__ge__'', ''__getattribute__'', ''__getstate__'', ''__gt__'',
      ''__hash__'', ''__init__'', ''__init_subclass__'', ''__le__'', ''__lt__'',
      ''__module__'', ''__ne__'', ''__new__'', ''__reduce__'', ''__reduce_ex__'',
      ''__repr__'', ''__setattr__'', ''__sizeof__'', ''__str__'', ''__subclasshook__'',
      ''__weakref__'']"

definition python_builtin :: "string \<Rightarrow> bool" where
  "python_builtin item = (item \<in> set object_members)"

definition sdriver_attr ::
    "(string \<Rightarrow> bool) \<Rightarrow> world \<Rightarrow> nat \<Rightarrow> env \<Rightarrow> string \<Rightarrow> (world \<times> (exn + val)) option" where
  "sdriver_attr builtin w r e item =
     (if item \<in> set sdriver_members \<or> builtin item then None
      else Some (sdriver_getattr w r e item))"

definition element_attr ::
    "(string \<Rightarrow> bool) \<Rightarrow> world \<Rightarrow> env \<Rightarrow> val \<Rightarrow> nat \<Rightarrow> string option \<Rightarrow> string \<Rightarrow>
     (world \<times> (exn + val)) option" where
  "element_attr builtin w e el r label item =
     (if item \<in> set element_members \<or> builtin item then None
      else Some (element_getattr w e el r label item))"

text \<open>
  One call on a proxy, with its receiver: the session-level operations name the
  \<open>ScreenshotDriver\<close>, the element-level ones carry the fields of the
  \<open>WrappedElement\<close>.
\<close>

datatype call =
    Get nat string
  | FindElement nat args "string option"
  | FindElements nat args "string option"
  | Quit nat
  | Click val nat "string option"
  | SendKeys val nat "string option" "string list"
  | Submit val nat "string option"
  | ImplicitlyWait nat val
  | SessionGetAttr nat string
  | ElementGetAttr val nat "string option" string
  | Screenshot nat "string option"

fun do_call :: "world \<Rightarrow> env \<Rightarrow> call \<Rightarrow> world \<times> (exn + val)" where
  "do_call w e (Get r url) = get w r e url"
| "do_call w e (FindElement r a label) = find_element w r e a label"
| "do_call w e (FindElements r a label) = find_elements w r e a label"
| "do_call w e (Quit r) = quit w r e"
| "do_call w e (Click el r label) = click w e el r label"
| "do_call w e (SendKeys el r label keys) = send_keys w e el r label keys"
| "do_call w e (Submit el r label) = submit w e el r label"
| "do_call w e (ImplicitlyWait r seconds) = implicitly_wait w r e seconds"
| "do_call w e (SessionGetAttr r item) = sdriver_getattr w r e item"
| "do_call w e (ElementGetAttr el r label item) = element_getattr w e el r label item"
| "do_call w e (Screenshot r label) = screenshot w r e label"

text \<open>The operations that take a snapshot before they delegate.\<close>

fun intercepted :: "call \<Rightarrow> bool" where
  "intercepted (Get r url) = True"
| "intercepted (FindElement r a label) = True"
| "intercepted (FindElements r a label) = True"
| "intercepted (Quit r) = True"
| "intercepted (Click el r label) = True"
| "intercepted (SendKeys el r label keys) = True"
| "intercepted (Submit el r label) = True"
| "intercepted (ImplicitlyWait r seconds) = False"
| "intercepted (SessionGetAttr r item) = False"
| "intercepted (ElementGetAttr el r label item) = False"
| "intercepted (Screenshot r label) = False"

text \<open>The \<open>ScreenshotDriver\<close> a call works on, and the label it captures under.\<close>

fun store_of :: "call \<Rightarrow> nat" where
  "store_of (Get r url) = r"
| "store_of (FindElement r a label) = r"
| "store_of (FindElements r a label) = r"
| "store_of (Quit r) = r"
| "store_of (Click el r label) = r"
| "store_of (SendKeys el r label keys) = r"
| "store_of (Submit el r label) = r"
| "store_of (ImplicitlyWait r seconds) = r"
| "store_of (SessionGetAttr r item) = r"
| "store_of (ElementGetAttr el r label item) = r"
| "store_of (Screenshot r label) = r"

fun capture_label :: "call \<Rightarrow> string option" where
  "capture_label (Get r url) = Some (''before_get_'' @ url)"
| "capture_label (FindElement r a label) = Some (or_else label ''before_find_element'')"
| "capture_label (FindElements r a label) = Some (or_else label ''before_find_elements'')"
| "capture_label (Quit r) = Some ''before_quit''"
| "capture_label (Click el r label) = Some (or_else label ''before_click'')"
| "capture_label (SendKeys el r label keys) =
     Some (or_else label (''before_send_keys_'' @ join ''_'' keys))"
| "capture_label (Submit el r label) = Some (or_else label ''before_submit'')"
| "capture_label (Screenshot r label) = label"
| "capture_label c = None"

fun captures :: "call \<Rightarrow> bool" where
  "captures (ImplicitlyWait r seconds) = False"
| "captures (SessionGetAttr r item) = False"
| "captures (ElementGetAttr el r label item) = False"
| "captures c = True"

text \<open>
  A sequence of calls, each with what the environment answers during it. The caller may
  catch what a call raises and go on, so every call of the list is made.
\<close>

fun run :: "world \<Rightarrow> (call \<times> env) list \<Rightarrow> world \<times> (exn + val) list" where
  "run w [] = (w, [])"
| "run w ((c, e) # cs) =
     (let (w1, res) = do_call w e c;
          (w2, rs) = run w1 cs
      in (w2, res # rs))"

text \<open>
  The scripted sequence: navigate, locate one element with the label \<open>box\<close>, click
  it, close the session. A raise ends the script.
\<close>

definition scenario :: "world \<Rightarrow> nat \<Rightarrow> env \<Rightarrow> env \<Rightarrow> env \<Rightarrow> env \<Rightarrow> world \<times> (exn + val)" where
  "scenario w r e1 e2 e3 e4 =
     (case get w r e1 ''https://example.test'' of
        (w1, Inl x) \<Rightarrow> (w1, Inl x)
      | (w1, Inr _) \<Rightarrow>
          (case find_element w1 r e2 ([PyStr ''css selector'', PyStr ''#box''], []) (Some ''box'') of
             (w2, Inl x) \<Rightarrow> (w2, Inl x)
           | (w2, Inr box) \<Rightarrow>
               (case box of
                  Wrapped el r' label \<Rightarrow>
                    (case click w2 e3 el r' label of
                       (w3, Inl x) \<Rightarrow> (w3, Inl x)
                     | (w3, Inr _) \<Rightarrow> quit w3 r e4)
                | _ \<Rightarrow> (w2, Inl (Exn ''AttributeError'')))))"

section \<open>The annotation loop\<close>

text \<open>
  A detection is the triple \<open>(bbox, text, prob)\<close> of the reader, \<open>bbox\<close> being four
  points \<open>[x, y]\<close>. The coordinates are numbers, integral or not, and \<open>int\<close>
  truncates towards zero.
\<close>

type_synonym point = "rat \<times> rat"

type_synonym detection = "(point \<times> point \<times> point \<times> point) \<times> string \<times> rat"

definition py_int :: "rat \<Rightarrow> int" where
  "py_int x = (if 0 \<le> x then \<lfloor>x\<rfloor> else \<lceil>x\<rceil>)"

text \<open>
  An image is the picture that was read and what has been drawn on it since, in order.
\<close>

datatype font = FONT_HERSHEY_SIMPLEX

datatype draw =
    Rectangle "int \<times> int" "int \<times> int" "nat \<times> nat \<times> nat" nat
  | PutText string "int \<times> int" font rat "nat \<times> nat \<times> nat" nat

record image =
  pixels :: nat
  drawn :: "draw list"

definition cv2_rectangle ::
    "image \<Rightarrow> int \<times> int \<Rightarrow> int \<times> int \<Rightarrow> nat \<times> nat \<times> nat \<Rightarrow> nat \<Rightarrow> image" where
  "cv2_rectangle img pt1 pt2 colour thickness =
     img\<lparr>drawn := drawn img @ [Rectangle pt1 pt2 colour thickness]\<rparr>"

definition cv2_putText ::
    "image \<Rightarrow> string \<Rightarrow> int \<times> int \<Rightarrow> font \<Rightarrow> rat \<Rightarrow> nat \<times> nat \<times> nat \<Rightarrow> nat \<Rightarrow> image" where
  "cv2_putText img txt org fnt scale colour thickness =
     img\<lparr>drawn := drawn img @ [PutText txt org fnt scale colour thickness]\<rparr>"

text \<open>The inner loop over the results of the reader.\<close>

fun draw_results :: "image \<Rightarrow> detection list \<Rightarrow> image" where
  "draw_results img [] = img"
| "draw_results img (((p0, p1, p2, p3), txt, prob) # results) =
     (let tl = (py_int (fst p0), py_int (snd p0));
          br = (py_int (fst p2), py_int (snd p2));
          img1 = cv2_rectangle img tl br (0, 255, 0) 2;
          img2 = cv2_putText img1 txt (fst tl, snd tl - 10) FONT_HERSHEY_SIMPLEX (6 / 10)
                   (0, 255, 0) 2
      in draw_results img2 results)"

text \<open>
  The loop over the history. The files are a map from paths to images: \<open>cv2.imread\<close>
  gives \<open>None\<close> for a file it cannot read, \<open>cv2.imwrite\<close> stores the image (in
  the directory the snapshot was read from; what it returns is not looked at). The
  reader is given the path and reads the file itself, so its answer depends on the path
  and on the image stored there. The result is the files, the log and writes in order,
  and the exception that ended the loop, if any.
\<close>

datatype alog =
    Annotating string
  | CouldNotRead string
  | Imwrite string image
  | SavedAnnotated string

fun annotate ::
    "(string \<rightharpoonup> image) \<Rightarrow> (string \<Rightarrow> image \<Rightarrow> exn + detection list) \<Rightarrow> string list
       \<Rightarrow> (string \<rightharpoonup> image) \<times> alog list \<times> exn option" where
  "annotate fs reader [] = (fs, [], None)"
| "annotate fs reader (img_path # rest) =
     (case fs img_path of
        None \<Rightarrow>
          (let (fs', lg, x) = annotate fs reader rest
           in (fs', Annotating img_path # CouldNotRead img_path # lg, x))
      | Some img \<Rightarrow>
          (case reader img_path img of
             Inl x \<Rightarrow> (fs, [Annotating img_path], Some x)
           | Inr results \<Rightarrow>
               (let img' = draw_results img results
                in case with_name img_path (''annotated_'' @ path_name img_path) of
                     Inl x \<Rightarrow> (fs, [Annotating img_path], Some x)
                   | Inr annotated_path \<Rightarrow>
                       (let (fs', lg, x) = annotate (fs(annotated_path \<mapsto> img')) reader rest
                        in (fs', Annotating img_path # Imwrite annotated_path img' #
                                 SavedAnnotated annotated_path # lg, x)))))"

text \<open>What a run of the loop wrote, and which snapshots it could not read.\<close>

fun written :: "alog list \<Rightarrow> (string \<times> image) list" where
  "written [] = []"
| "written (Imwrite p img # lg) = (p, img) # written lg"
| "written (ev # lg) = written lg"

fun load_failures :: "alog list \<Rightarrow> string list" where
  "load_failures [] = []"
| "load_failures (CouldNotRead p # lg) = p # load_failures lg"
| "load_failures (ev # lg) = load_failures lg"

text \<open>
  The names \<open>_next_name\<close> gives start with a digit; \<open>snapshot_path\<close> tells such a
  path.
\<close>

definition snapshot_path :: "string \<Rightarrow> bool" where
  "snapshot_path p = (case path_name p of [] \<Rightarrow> False | c # cs \<Rightarrow> isdigit c)"

subsection \<open>The artifact name\<close>

text \<open>
  The file name \<open>_next_name\<close> builds once the counter has the value \<open>c\<close>: the body
  of the method after the increment.
\<close>

definition artifact_name :: "nat \<Rightarrow> datetime \<Rightarrow> string option \<Rightarrow> string" where
  "artifact_name c now label =
     fmt_04d c @ ''_'' @ timestamp now @ ''_'' @
     (if truthy label then sanitize (the label) else ''action'') @ ''.png''"

text \<open>
  The name as the specification words it: the sequence number zero-padded to four digits,
  the timestamp with millisecond precision, the label sanitised when present and
  \<open>action\<close> when absent, and the extension.
\<close>

definition spec_label :: "string option \<Rightarrow> string" where
  "spec_label label =
     (case label of
        None \<Rightarrow> ''action''
      | Some l \<Rightarrow> map (\<lambda>c. if isalnum c \<or> c = CHR ''-'' \<or> c = CHR ''_'' then c else CHR ''_'') l)"

definition spec_timestamp :: "datetime \<Rightarrow> string" where
  "spec_timestamp t =
     zfill 4 (str_nat (year t)) @ zfill 2 (str_nat (month t)) @ zfill 2 (str_nat (day t)) @
     ''_'' @ zfill 2 (str_nat (hour t)) @ zfill 2 (str_nat (minute t)) @
     zfill 2 (str_nat (second t)) @ ''_'' @ zfill 3 (str_nat (microsecond t div 1000))"

definition spec_name :: "nat \<Rightarrow> datetime \<Rightarrow> string option \<Rightarrow> string" where
  "spec_name n t label =
     zfill 4 (str_nat n) @ ''_'' @ spec_timestamp t @ ''_'' @ spec_label label @ ''.png''"

subsection \<open>Predicates and examples for the properties\<close>

text \<open>
  The store is in order when its counter is the length of its history and the snapshots
  of the history carry the sequence numbers 1, 2, ... in that order.
\<close>

definition store_ok :: "sdriver \<Rightarrow> bool" where
  "store_ok s =
     (counter s = length (history s) \<and>
      map seq_of (history s) = [1..<Suc (length (history s))])"

text \<open>
  What a call does to the collaborator it delegates to, \<open>d\<close> being the wrapped
  session of its \<open>ScreenshotDriver\<close>.
\<close>

fun delegated :: "nat \<Rightarrow> call \<Rightarrow> event list" where
  "delegated d (Get r url) = [SessionCall d ''get'' ([PyStr url], [])]"
| "delegated d (FindElement r a label) = [SessionCall d ''find_element'' a]"
| "delegated d (FindElements r a label) = [SessionCall d ''find_elements'' a]"
| "delegated d (Quit r) = [SessionCall d ''quit'' ([], [])]"
| "delegated d (Click el r label) = [ElementCall el ''click'' ([], [])]"
| "delegated d (SendKeys el r label keys) = [ElementCall el ''send_keys'' (map PyStr keys, [])]"
| "delegated d (Submit el r label) = [ElementCall el ''submit'' ([], [])]"
| "delegated d (ImplicitlyWait r seconds) = [SessionCall d ''implicitly_wait'' ([seconds], [])]"
| "delegated d (SessionGetAttr r item) = [SessionAttr d item]"
| "delegated d (ElementGetAttr el r label item) = [ElementAttr el item]"
| "delegated d (Screenshot r label) = []"

text \<open>Every capture of the sequence succeeds: \<open>save_screenshot\<close> does not raise.\<close>

definition saves_ok :: "(call \<times> env) list \<Rightarrow> bool" where
  "saves_ok ces = list_all (\<lambda>(c, e). captures c \<longrightarrow> \<not> isl (save_reply e)) ces"

text \<open>
  A world of new \<open>ScreenshotDriver\<close> objects with the default output directory, and a
  clock reading.
\<close>

definition fresh_world :: world where
  "fresh_world =
     \<lparr>objs = (\<lambda>r. \<lparr>driver = r, out_dir = ''screenshots'', counter = 0, history = []\<rparr>),
      trace = []\<rparr>"

definition clock_at :: "nat \<Rightarrow> datetime" where
  "clock_at us =
     \<lparr>year = 2026, month = 11, day = 3, hour = 9, minute = 5, second = 7, microsecond = us\<rparr>"

text \<open>
  The paths that the captures of the calls on the store \<open>r\<close> add to its history,
  from the state \<open>s\<close> of that store: a capture whose \<open>save_screenshot\<close> raises uses
  up a number and adds nothing.
\<close>

fun captured :: "sdriver \<Rightarrow> nat \<Rightarrow> (call \<times> env) list \<Rightarrow> string list" where
  "captured s r [] = []"
| "captured s r ((c, e) # ces) =
     (if captures c \<and> store_of c = r
      then (if isl (save_reply e) then [] else [snd (next_name s (clock e) (capture_label c))]) @
           captured (s\<lparr>counter := counter s + 1\<rparr>) r ces
      else captured s r ces)"

text \<open>
  The derived name of the specification: the fixed prefix before the file name of the
  snapshot, in the directory of the snapshot.
\<close>

definition annotated_name :: "string \<Rightarrow> string" where
  "annotated_name p = path_dir p @ ''annotated_'' @ path_name p"

text \<open>
  What is drawn for one detection: the rectangle from the first to the third corner and
  the text ten pixels above the first corner, the coordinates converted by \<open>int\<close>.
\<close>

definition placements :: "detection \<Rightarrow> draw list" where
  "placements d =
     (case d of ((p0, p1, p2, p3), txt, prob) \<Rightarrow>
        [Rectangle (py_int (fst p0), py_int (snd p0)) (py_int (fst p2), py_int (snd p2))
           (0, 255, 0) 2,
         PutText txt (py_int (fst p0), py_int (snd p0) - 10) FONT_HERSHEY_SIMPLEX (6 / 10)
           (0, 255, 0) 2])"

text \<open>
  A history of three snapshots of which the second has no readable file, and a reader
  that finds one text in every image.
\<close>

definition example_history :: "string list" where
  "example_history =
     [''screenshots/0001_20261103_090507_001_before_get.png'',
      ''screenshots/0002_20261103_090507_002_search_input.png'',
      ''screenshots/0003_20261103_090507_003_before_quit.png'']"

definition example_files :: "string \<rightharpoonup> image" where
  "example_files =
     [''screenshots/0001_20261103_090507_001_before_get.png'' \<mapsto> \<lparr>pixels = 1, drawn = []\<rparr>,
      ''screenshots/0003_20261103_090507_003_before_quit.png'' \<mapsto> \<lparr>pixels = 3, drawn = []\<rparr>]"

definition example_reader :: "string \<Rightarrow> image \<Rightarrow> exn + detection list" where
  "example_reader p img = Inr [(((10, 10), (50, 10), (50, 30), (10, 30)), ''OK'', 9 / 10)]"

section \<open>Properties of the names\<close>

lemma digit_char_isdigit: "d < 10 \<Longrightarrow> isdigit (digit_char d)"
  by (simp add: isdigit_def digit_char_def)

lemma digit_val_digit_char: "d < 10 \<Longrightarrow> digit_val (digit_char d) = d"
  by (simp add: digit_val_def digit_char_def)

lemma digit_char_0: "digit_char 0 = CHR ''0''"
  by code_simp

lemma str_nat_digits: "c \<in> set (str_nat n) \<Longrightarrow> isdigit c"
proof (induction n arbitrary: c rule: str_nat.induct)
  case (1 n)
  then show ?case
    by (subst (asm) (2) str_nat.simps) (auto simp: digit_char_isdigit split: if_splits)
qed

lemma str_nat_nonempty: "str_nat n \<noteq> []"
  by (subst str_nat.simps) simp

lemma parse_nat_snoc: "parse_nat (s @ [c]) = 10 * parse_nat s + digit_val c"
  by (simp add: parse_nat_def)

lemma parse_nat_str_nat: "parse_nat (str_nat n) = n"
proof (induction n rule: str_nat.induct)
  case (1 n)
  show ?case
  proof (cases "n < 10")
    case True
    then show ?thesis
      by (subst str_nat.simps) (simp add: parse_nat_def digit_val_digit_char)
  next
    case False
    with 1 have "parse_nat (str_nat (n div 10)) = n div 10" by simp
    with False show ?thesis
      by (subst str_nat.simps) (simp add: parse_nat_snoc digit_val_digit_char)
  qed
qed

lemma parse_nat_zeros: "parse_nat (replicate k (CHR ''0'') @ s) = parse_nat s"
proof -
  have "foldl (\<lambda>acc c. 10 * acc + digit_val c) 0 (replicate k (CHR ''0'')) = 0"
    by (induction k) (simp_all add: digit_val_def)
  then show ?thesis by (simp add: parse_nat_def)
qed

lemma parse_nat_zfill: "parse_nat (zfill w (str_nat n)) = n"
  by (simp add: zfill_def parse_nat_zeros parse_nat_str_nat)

lemma zfill_digits: "c \<in> set (zfill w (str_nat n)) \<Longrightarrow> isdigit c"
  by (auto simp: zfill_def isdigit_def dest: str_nat_digits)

lemma zfill_nonempty: "zfill w (str_nat n) \<noteq> []"
  by (simp add: zfill_def str_nat_nonempty)

lemma isdigit_not_sep: "isdigit c \<Longrightarrow> c \<noteq> CHR ''/'' \<and> c \<noteq> CHR ''_''"
  by (auto simp: isdigit_def)

lemma sanitize_chars: "c \<in> set (sanitize l) \<Longrightarrow> isalnum c \<or> c = CHR ''-'' \<or> c = CHR ''_''"
  by (auto simp: sanitize_def)

lemma sanitize_no_slash: "CHR ''/'' \<notin> set (sanitize l)"
  using sanitize_chars [of "CHR ''/''" l] by (auto simp: isalnum_def)

lemma strftime_chars: "c \<in> set (strftime t) \<Longrightarrow> isdigit c \<or> c = CHR ''_''"
  by (auto simp: strftime_def dest: zfill_digits)

lemma timestamp_chars: "c \<in> set (timestamp t) \<Longrightarrow> isdigit c \<or> c = CHR ''_''"
  unfolding timestamp_def drop_last3_def
  by (blast dest: in_set_takeD strftime_chars)

lemma timestamp_no_slash: "CHR ''/'' \<notin> set (timestamp t)"
  using timestamp_chars [of "CHR ''/''" t] by (auto simp: isdigit_def)

lemma fmt_04d_no_slash: "CHR ''/'' \<notin> set (fmt_04d n)"
  using zfill_digits [of "CHR ''/''" 4 n] by (auto simp: fmt_04d_def isdigit_def)

lemma artifact_name_no_slash: "CHR ''/'' \<notin> set (artifact_name c now label)"
  by (simp add: artifact_name_def fmt_04d_no_slash timestamp_no_slash sanitize_no_slash)

lemma rev_last: "d \<noteq> [] \<Longrightarrow> rev d = last d # rev (butlast d)"
proof -
  assume "d \<noteq> []"
  then have "butlast d @ [last d] = d" by simp
  moreover have "rev (butlast d @ [last d]) = last d # rev (butlast d)" by simp
  ultimately show ?thesis by simp
qed

lemma path_name_after_sep:
  assumes "CHR ''/'' \<notin> set n" and "d = [] \<or> last d = CHR ''/''"
  shows "path_name (d @ n) = n"
proof (cases "d = []")
  case True
  have "takeWhile (\<lambda>c. c \<noteq> CHR ''/'') (rev n) = rev n"
    by (rule takeWhile_eq_all_conv [THEN iffD2]) (use assms in auto)
  with True show ?thesis
    unfolding path_name_def by (simp only: append_Nil rev_rev_ident)
next
  case False
  then have rd: "rev d = last d # rev (butlast d)" by (rule rev_last)
  from False assms(2) have ld: "last d = CHR ''/''" by simp
  have "takeWhile (\<lambda>c. c \<noteq> CHR ''/'') (rev n @ CHR ''/'' # rev (butlast d)) = rev n"
    using assms(1) by (auto simp: takeWhile_tail)
  then have "takeWhile (\<lambda>c. c \<noteq> CHR ''/'') (rev (d @ n)) = rev n"
    by (simp only: rev_append rd ld)
  then show ?thesis
    unfolding path_name_def by (simp only: rev_rev_ident)
qed

lemma path_name_join:
  assumes "CHR ''/'' \<notin> set n"
  shows "path_name (path_join d n) = n"
proof -
  have "path_name (d @ ''/'' @ n) = n"
    using path_name_after_sep [of n "d @ ''/''"] assms by simp
  moreover have "path_name n = n"
    using path_name_after_sep [of n "[]"] assms by simp
  moreover have "last d = CHR ''/'' \<Longrightarrow> path_name (d @ n) = n"
    using path_name_after_sep [of n d] assms by simp
  ultimately show ?thesis by (simp add: path_join_def)
qed

lemma next_name_eq:
  "next_name s now label =
     (s\<lparr>counter := counter s + 1\<rparr>, path_join (out_dir s) (artifact_name (counter s + 1) now label))"
  by (simp add: next_name_def artifact_name_def Let_def)

lemma takeWhile_digits_sep:
  "(\<And>c. c \<in> set ds \<Longrightarrow> isdigit c) \<Longrightarrow> \<not> isdigit x \<Longrightarrow> takeWhile isdigit (ds @ x # rest) = ds"
  by (auto simp: takeWhile_tail)

lemma seq_of_artifact: "seq_of (path_join d (artifact_name c now label)) = c"
proof -
  have "takeWhile isdigit (fmt_04d c @ CHR ''_'' # rest) = fmt_04d c" for rest
    by (rule takeWhile_digits_sep) (auto simp: fmt_04d_def isdigit_def dest: zfill_digits)
  then have "takeWhile isdigit (artifact_name c now label) = fmt_04d c"
    by (simp add: artifact_name_def)
  then show ?thesis
    by (simp add: seq_of_def path_name_join artifact_name_no_slash fmt_04d_def parse_nat_zfill)
qed

lemma snapshot_path_artifact: "snapshot_path (path_join d (artifact_name c now label))"
proof -
  obtain x xs where "fmt_04d c = x # xs" 
    using zfill_nonempty [of 4 c] by (cases "fmt_04d c") (auto simp: fmt_04d_def)
  moreover from this have "isdigit x" using zfill_digits [of x 4 c] by (simp add: fmt_04d_def)
  ultimately show ?thesis
    by (simp add: snapshot_path_def path_name_join artifact_name_no_slash) (simp add: artifact_name_def)
qed

lemma take3: "take (length s - 3) s = butlast (butlast (butlast s))" for s :: string
    by (simp add: butlast_conv_take eval_nat_numeral)

lemma butlast_zfill:
  "butlast (zfill (k + 2) (str_nat n)) = zfill (k + 1) (str_nat (n div 10))"
proof (cases "n < 10")
  case True
  have z: "str_nat (0::nat) = [digit_char 0]" by (subst str_nat.simps) simp
  from True have "str_nat n = [digit_char n]" by (subst str_nat.simps) simp
  with True show ?thesis
    by (simp add: zfill_def z digit_char_0 replicate_append_same)
next
  case False
  then have "str_nat n = str_nat (n div 10) @ [digit_char (n mod 10)]"
    by (subst str_nat.simps) simp
  then show ?thesis
    by (simp add: zfill_def butlast_append)
qed

lemma div_1000: "(n::nat) div 10 div 10 div 10 = n div 1000"
  by (simp add: div_mult2_eq [symmetric])

lemma drop_last3_zfill6: "drop_last3 (pre @ zfill 6 (str_nat n)) = pre @ zfill 3 (str_nat (n div 1000))"
proof -
  have 1: "butlast (zfill 6 (str_nat n)) = zfill 5 (str_nat (n div 10))"
    using butlast_zfill [of 4 n] by simp
  have 2: "butlast (zfill 5 (str_nat (n div 10))) = zfill 4 (str_nat (n div 10 div 10))"
    using butlast_zfill [of 3 "n div 10"] by simp
  have 3: "butlast (zfill 4 (str_nat (n div 10 div 10))) = zfill 3 (str_nat (n div 10 div 10 div 10))"
    using butlast_zfill [of 2 "n div 10 div 10"] by simp
  have len: "3 \<le> length (zfill 6 (str_nat n))" by (simp add: zfill_def)
  have "drop_last3 (zfill 6 (str_nat n)) = butlast (butlast (butlast (zfill 6 (str_nat n))))"
    unfolding drop_last3_def by (rule take3)
  then have "drop_last3 (zfill 6 (str_nat n)) = zfill 3 (str_nat (n div 1000))"
    by (simp only: 1 2 3 div_1000)
  moreover have "drop_last3 (pre @ s) = pre @ drop_last3 s" if "3 \<le> length s" for s
    using that by (simp add: drop_last3_def)
  ultimately show ?thesis using len by simp
qed

lemma timestamp_millis: "timestamp t = spec_timestamp t"
proof -
  have "strftime t = (zfill 4 (str_nat (year t)) @ zfill 2 (str_nat (month t)) @ zfill 2 (str_nat (day t)) @
     ''_'' @ zfill 2 (str_nat (hour t)) @ zfill 2 (str_nat (minute t)) @
     zfill 2 (str_nat (second t)) @ ''_'') @ zfill 6 (str_nat (microsecond t))"
    by (simp add: strftime_def)
  then show ?thesis
    unfolding timestamp_def spec_timestamp_def by (simp only: drop_last3_zfill6) simp
qed

text \<open>Evaluating the names on concrete inputs.\<close>

lemma digit_char_simps:
  "digit_char 0 = CHR ''0''"
  "digit_char 1 = CHR ''1''"
  "digit_char 2 = CHR ''2''"
  "digit_char 3 = CHR ''3''"
  "digit_char 4 = CHR ''4''"
  "digit_char 5 = CHR ''5''"
  "digit_char 6 = CHR ''6''"
  "digit_char 7 = CHR ''7''"
  "digit_char 8 = CHR ''8''"
  "digit_char 9 = CHR ''9''"
  "digit_char (Suc 0) = CHR ''1''"
  "digit_char (Suc (Suc 0)) = CHR ''2''"
  "digit_char (Suc (Suc (Suc 0))) = CHR ''3''"
  "digit_char (Suc (Suc (Suc (Suc 0)))) = CHR ''4''"
  "digit_char (Suc (Suc (Suc (Suc (Suc 0))))) = CHR ''5''"
  "digit_char (Suc (Suc (Suc (Suc (Suc (Suc 0)))))) = CHR ''6''"
  "digit_char (Suc (Suc (Suc (Suc (Suc (Suc (Suc 0))))))) = CHR ''7''"
  "digit_char (Suc (Suc (Suc (Suc (Suc (Suc (Suc (Suc 0)))))))) = CHR ''8''"
  "digit_char (Suc (Suc (Suc (Suc (Suc (Suc (Suc (Suc (Suc 0))))))))) = CHR ''9''"
  by code_simp+

lemma replicate_small:
  "replicate 1 c = [c]" "replicate 2 c = [c, c]" "replicate 3 c = [c, c, c]"
  "replicate 4 c = [c, c, c, c]" "replicate 5 c = [c, c, c, c, c]"
  by (simp_all add: eval_nat_numeral)

lemmas eval_name = str_nat.simps zfill_def fmt_04d_def digit_char_simps replicate_small
  timestamp_def strftime_def drop_last3_def path_join_def path_name_def spec_name_def
  spec_timestamp_def spec_label_def isalnum_def isdigit_def next_name_def truthy_def
  sanitize_def artifact_name_def seq_of_def parse_nat_def digit_val_def

section \<open>The artifact namer\<close>

lemma spec_label_eq:
  "(if truthy label then sanitize (the label) else ''action'') =
     spec_label (if label = Some [] then None else label)"
  by (cases label) (auto simp: truthy_def spec_label_def sanitize_def)

lemma spec_label_chars:
  "c \<in> set (spec_label label) \<Longrightarrow> isalnum c \<or> c = CHR ''-'' \<or> c = CHR ''_''"
  by (cases label) (auto simp: spec_label_def isalnum_def)

text \<open>
  Claim C8, as the code has it. The path \<open>_next_name\<close> returns is the output directory
  joined with the name the specification describes: the sequence number (the counter
  after its increment) zero-padded to four digits, the timestamp cut to milliseconds, the
  label with every character that is not alphanumeric, \<open>-\<close> or \<open>_\<close> replaced by
  \<open>_\<close>, and \<open>.png\<close>. The literal \<open>action\<close> stands for a label that is absent or
  empty. The label segment holds only alphanumerics, \<open>-\<close> and \<open>_\<close>.
\<close>

theorem next_name_spec_name:
  "snd (next_name s now label) =
     path_join (out_dir s)
       (spec_name (counter s + 1) now (if label = Some [] then None else label)) \<and>
   (\<forall>c \<in> set (spec_label (if label = Some [] then None else label)).
      isalnum c \<or> c = CHR ''-'' \<or> c = CHR ''_'')"
proof
  show "snd (next_name s now label) =
     path_join (out_dir s)
       (spec_name (counter s + 1) now (if label = Some [] then None else label))"
    unfolding next_name_eq artifact_name_def spec_name_def fmt_04d_def
    by (simp only: snd_conv spec_label_eq timestamp_millis)
  show "\<forall>c \<in> set (spec_label (if label = Some [] then None else label)).
      isalnum c \<or> c = CHR ''-'' \<or> c = CHR ''_''"
    using spec_label_chars by blast
qed

text \<open>The theorem at a label with a slash and a space.\<close>

theorem next_name_spec_name_witness:
  "snd (next_name \<lparr>driver = 0, out_dir = ''screenshots'', counter = 0, history = []\<rparr>
         \<lparr>year = 2026, month = 11, day = 3, hour = 9, minute = 5, second = 7,
          microsecond = 123456\<rparr> (Some ''a/b c'')) =
     ''screenshots/0001_20261103_090507_123_a_b_c.png'' \<and>
   list_all (\<lambda>c. isalnum c \<or> c = CHR ''-'' \<or> c = CHR ''_'') ''a_b_c''"
proof -
  have 1: "path_join (out_dir \<lparr>driver = 0, out_dir = ''screenshots'', counter = 0, history = []\<rparr>)
       (spec_name (counter \<lparr>driver = 0, out_dir = ''screenshots'', counter = 0, history = []\<rparr> + 1)
          \<lparr>year = 2026, month = 11, day = 3, hour = 9, minute = 5, second = 7,
           microsecond = 123456\<rparr>
          (if Some ''a/b c'' = Some [] then None else Some ''a/b c'')) =
     ''screenshots/0001_20261103_090507_123_a_b_c.png''"
    by (simp add: eval_name)
  have 2: "spec_label (if Some ''a/b c'' = Some [] then None else Some ''a/b c'') = ''a_b_c''"
    by (simp add: eval_name)
  from next_name_spec_name
         [of "\<lparr>driver = 0, out_dir = ''screenshots'', counter = 0, history = []\<rparr>"
             "\<lparr>year = 2026, month = 11, day = 3, hour = 9, minute = 5, second = 7,
               microsecond = 123456\<rparr>"
             "Some ''a/b c''"]
  show ?thesis unfolding 1 2 list_all_iff .
qed

text \<open>
  Claim C8 as stated fails for a label that is present and empty: the code names the file
  \<open>action\<close>, the stated rule gives an empty label segment.
\<close>

theorem next_name_empty_label_counterexample:
  "snd (next_name \<lparr>driver = 0, out_dir = ''screenshots'', counter = 0, history = []\<rparr>
         \<lparr>year = 2026, month = 11, day = 3, hour = 9, minute = 5, second = 7,
          microsecond = 123456\<rparr> (Some [])) =
     ''screenshots/0001_20261103_090507_123_action.png'' \<and>
   snd (next_name \<lparr>driver = 0, out_dir = ''screenshots'', counter = 0, history = []\<rparr>
         \<lparr>year = 2026, month = 11, day = 3, hour = 9, minute = 5, second = 7,
          microsecond = 123456\<rparr> (Some [])) \<noteq>
     path_join ''screenshots''
       (spec_name 1 \<lparr>year = 2026, month = 11, day = 3, hour = 9, minute = 5, second = 7,
          microsecond = 123456\<rparr> (Some []))"
  by (simp add: eval_name)

text \<open>
  Claim C4 as stated fails: one invocation changes the counter of the store, and a second
  invocation at the same clock reading and label gives another name.
\<close>

theorem next_name_counter_counterexample:
  "counter (fst (next_name \<lparr>driver = 0, out_dir = ''screenshots'', counter = 0, history = []\<rparr>
         \<lparr>year = 2026, month = 11, day = 3, hour = 9, minute = 5, second = 7,
          microsecond = 123456\<rparr> (Some ''box''))) \<noteq>
     counter \<lparr>driver = 0, out_dir = ''screenshots'', counter = 0, history = []\<rparr> \<and>
   snd (next_name
          (fst (next_name \<lparr>driver = 0, out_dir = ''screenshots'', counter = 0, history = []\<rparr>
             \<lparr>year = 2026, month = 11, day = 3, hour = 9, minute = 5, second = 7,
              microsecond = 123456\<rparr> (Some ''box'')))
          \<lparr>year = 2026, month = 11, day = 3, hour = 9, minute = 5, second = 7,
           microsecond = 123456\<rparr> (Some ''box'')) \<noteq>
     snd (next_name \<lparr>driver = 0, out_dir = ''screenshots'', counter = 0, history = []\<rparr>
         \<lparr>year = 2026, month = 11, day = 3, hour = 9, minute = 5, second = 7,
          microsecond = 123456\<rparr> (Some ''box''))"
  by (simp add: eval_name)

text \<open>
  Claim C4, as the code has it. \<open>_next_name\<close> increments the counter by one and
  changes nothing else of the store (the history, the output directory and the wrapped
  session stay as they are, and no collaborator is called); the path it returns depends
  only on the counter, the output directory, the clock reading and the label.
\<close>

theorem next_name_effect:
  "fst (next_name s now label) = s\<lparr>counter := counter s + 1\<rparr> \<and>
   (counter s' = counter s \<and> out_dir s' = out_dir s \<longrightarrow>
      snd (next_name s' now label) = snd (next_name s now label))"
  by (simp add: next_name_eq)

text \<open>Two stores with the same counter and directory, differing elsewhere.\<close>

theorem next_name_effect_witness:
  "fst (next_name \<lparr>driver = 0, out_dir = ''screenshots'', counter = 4, history = [''a'']\<rparr>
         \<lparr>year = 2026, month = 11, day = 3, hour = 9, minute = 5, second = 7,
          microsecond = 123456\<rparr> (Some ''box'')) =
     \<lparr>driver = 0, out_dir = ''screenshots'', counter = 5, history = [''a'']\<rparr> \<and>
   snd (next_name \<lparr>driver = 7, out_dir = ''screenshots'', counter = 4, history = []\<rparr>
         \<lparr>year = 2026, month = 11, day = 3, hour = 9, minute = 5, second = 7,
          microsecond = 123456\<rparr> (Some ''box'')) =
     snd (next_name \<lparr>driver = 0, out_dir = ''screenshots'', counter = 4, history = [''a'']\<rparr>
         \<lparr>year = 2026, month = 11, day = 3, hour = 9, minute = 5, second = 7,
          microsecond = 123456\<rparr> (Some ''box''))"
  using next_name_effect
          [of "\<lparr>driver = 0, out_dir = ''screenshots'', counter = 4, history = [''a'']\<rparr>"
              "\<lparr>year = 2026, month = 11, day = 3, hour = 9, minute = 5, second = 7,
                microsecond = 123456\<rparr>"
              "Some ''box''"
              "\<lparr>driver = 7, out_dir = ''screenshots'', counter = 4, history = []\<rparr>"]
  by simp

section \<open>The proxies and the session history\<close>

lemmas op_defs = get_def find_element_def find_elements_def quit_def click_def send_keys_def
  submit_def implicitly_wait_def sdriver_getattr_def element_getattr_def

lemma screenshot_objs_ok:
  "\<not> isl (save_reply e) \<Longrightarrow>
   objs (fst (screenshot w r e l)) =
     (objs w)(r := (objs w r)\<lparr>counter := counter (objs w r) + 1,
        history := history (objs w r) @ [snd (next_name (objs w r) (clock e) l)]\<rparr>)"
  by (cases "save_reply e") (simp_all add: screenshot_def next_name_eq emit_def Let_def)

lemma screenshot_objs_fail:
  "isl (save_reply e) \<Longrightarrow>
   objs (fst (screenshot w r e l)) =
     (objs w)(r := (objs w r)\<lparr>counter := counter (objs w r) + 1\<rparr>)"
  by (cases "save_reply e") (simp_all add: screenshot_def next_name_eq emit_def Let_def)

lemma screenshot_result:
  "snd (screenshot w r e l) =
     (case save_reply e of Inl x \<Rightarrow> Inl x
      | Inr v \<Rightarrow> Inr (PyPath (snd (next_name (objs w r) (clock e) l))))"
  by (cases "save_reply e") (simp_all add: screenshot_def next_name_eq emit_def Let_def)

lemma screenshot_trace:
  "trace (fst (screenshot w r e l)) =
     trace w @
     SessionCall (driver (objs w r)) ''save_screenshot''
        ([PyStr (snd (next_name (objs w r) (clock e) l))], []) #
     (case save_reply e of Inl x \<Rightarrow> []
      | Inr v \<Rightarrow> [LogInfo (''Saved screenshot: '' @ snd (next_name (objs w r) (clock e) l))])"
  by (cases "save_reply e") (simp_all add: screenshot_def next_name_eq emit_def Let_def)

lemma do_call_objs:
  "\<not> isl (save_reply e) \<Longrightarrow>
   objs (fst (do_call w e c)) =
     (if captures c
      then (objs w)(store_of c := (objs w (store_of c))
             \<lparr>counter := counter (objs w (store_of c)) + 1,
              history := history (objs w (store_of c)) @
                 [snd (next_name (objs w (store_of c)) (clock e) (capture_label c))]\<rparr>)
      else objs w)"
  by (cases c; cases "screenshot w (store_of c) e (capture_label c)")
     (use screenshot_objs_ok [of e w "store_of c" "capture_label c"]
          screenshot_result [of w "store_of c" e "capture_label c"]
      in \<open>auto simp: op_defs emit_def Let_def split: sum.splits\<close>)

lemma screenshot_driver [simp]:
  "driver (objs (fst (screenshot w r e l)) r') = driver (objs w r')"
  by (cases "save_reply e") (simp_all add: screenshot_def next_name_eq emit_def Let_def)

lemma do_call_raise:
  "intercepted c \<Longrightarrow> \<not> isl (save_reply e) \<Longrightarrow> reply e = Inl x \<Longrightarrow> snd (do_call w e c) = Inl x"
  by (cases c; cases "screenshot w (store_of c) e (capture_label c)")
     (use screenshot_result [of w "store_of c" e "capture_label c"]
      in \<open>auto simp: op_defs emit_def Let_def split: sum.splits\<close>)

lemma do_call_trace:
  "\<not> isl (save_reply e) \<Longrightarrow>
   trace (fst (do_call w e c)) =
     trace w @
     (if captures c
      then [SessionCall (driver (objs w (store_of c))) ''save_screenshot''
              ([PyStr (snd (next_name (objs w (store_of c)) (clock e) (capture_label c)))], []),
            LogInfo (''Saved screenshot: '' @
              snd (next_name (objs w (store_of c)) (clock e) (capture_label c)))]
      else []) @
     delegated (driver (objs w (store_of c))) c"
  by (cases c; cases "screenshot w (store_of c) e (capture_label c)")
     (use screenshot_trace [of w "store_of c" e "capture_label c"]
          screenshot_result [of w "store_of c" e "capture_label c"]
          screenshot_driver [of w "store_of c" e "capture_label c" "store_of c"]
      in \<open>auto simp: op_defs emit_def Let_def split: sum.splits\<close>)

lemma do_call_passes:
  "\<not> captures c \<Longrightarrow> snd (do_call w e c) = reply e \<and> objs (fst (do_call w e c)) = objs w"
  by (cases c) (simp_all add: op_defs emit_def)

lemma seq_of_next_name: "seq_of (snd (next_name s now l)) = counter s + 1"
  by (simp add: next_name_eq seq_of_artifact)

lemma store_ok_capture:
  assumes "store_ok s"
  shows "store_ok (s\<lparr>counter := counter s + 1,
                      history := history s @ [snd (next_name s now l)]\<rparr>)"
  using assms by (simp add: store_ok_def seq_of_next_name)

lemma do_call_store_ok:
  assumes "captures c \<longrightarrow> \<not> isl (save_reply e)" and "store_ok (objs w r)"
  shows "store_ok (objs (fst (do_call w e c)) r)"
proof (cases "captures c")
  case True
  with assms store_ok_capture [of "objs w r" "clock e" "capture_label c"] show ?thesis
    by (auto simp: do_call_objs)
next
  case False
  with assms do_call_passes [of c w e] show ?thesis by simp
qed

lemma do_call_history:
  assumes "captures c \<longrightarrow> \<not> isl (save_reply e)"
  shows "history (objs (fst (do_call w e c)) r) =
           history (objs w r) @
           (if captures c \<and> store_of c = r
            then [snd (next_name (objs w r) (clock e) (capture_label c))] else [])"
proof (cases "captures c")
  case True
  with assms show ?thesis by (simp add: do_call_objs)
next
  case False
  with do_call_passes [of c w e] show ?thesis by simp
qed

lemma run_Cons_fst: "fst (run w ((c, e) # ces)) = fst (run (fst (do_call w e c)) ces)"
  by (simp add: case_prod_beta Let_def)

lemma run_store_ok:
  "saves_ok ces \<Longrightarrow> store_ok (objs w r) \<Longrightarrow> store_ok (objs (fst (run w ces)) r)"
proof (induction ces arbitrary: w)
  case Nil
  then show ?case by simp
next
  case (Cons ce ces)
  obtain c e where ce: "ce = (c, e)" by (cases ce)
  from Cons.prems ce have ok: "captures c \<longrightarrow> \<not> isl (save_reply e)" and rest: "saves_ok ces"
    by (simp_all add: saves_ok_def)
  from ok Cons.prems(2) have "store_ok (objs (fst (do_call w e c)) r)"
    by (rule do_call_store_ok)
  with rest have "store_ok (objs (fst (run (fst (do_call w e c)) ces)) r)"
    by (rule Cons.IH)
  then show ?case
    by (simp only: ce run_Cons_fst)
qed

lemma run_history:
  "saves_ok ces \<Longrightarrow>
   \<exists>new. history (objs (fst (run w ces)) r) = history (objs w r) @ new \<and>
         length new = length (filter (\<lambda>(c, e). captures c \<and> store_of c = r) ces)"
proof (induction ces arbitrary: w)
  case Nil
  then show ?case by simp
next
  case (Cons ce ces)
  obtain c e where ce: "ce = (c, e)" by (cases ce)
  from Cons.prems ce have ok: "captures c \<longrightarrow> \<not> isl (save_reply e)" and rest: "saves_ok ces"
    by (simp_all add: saves_ok_def)
  from Cons.IH [OF rest, where w = "fst (do_call w e c)"] obtain new where
    new: "history (objs (fst (run (fst (do_call w e c)) ces)) r) =
            history (objs (fst (do_call w e c)) r) @ new"
    and len: "length new = length (filter (\<lambda>(c, e). captures c \<and> store_of c = r) ces)"
    by blast
  show ?case
    unfolding ce run_Cons_fst
    using new len do_call_history [OF ok, where w = w and r = r]
    by auto
qed

lemma run_append: "fst (run w (as @ bs)) = fst (run (fst (run w as)) bs)"
proof (induction as arbitrary: w)
  case Nil
  show ?case by simp
next
  case (Cons a as)
  obtain c e where a: "a = (c, e)" by (cases a)
  show ?case by (simp only: a append_Cons run_Cons_fst Cons.IH)
qed

lemma saves_ok_drop: "saves_ok ces \<Longrightarrow> saves_ok (drop k ces)"
  unfolding saves_ok_def list_all_iff by (blast dest: in_set_dropD)

lemma run_prefix:
  assumes "saves_ok ces"
  shows "take (length (history (objs (fst (run w (take k ces))) r)))
           (history (objs (fst (run w ces)) r)) =
         history (objs (fst (run w (take k ces))) r)"
proof -
  have "fst (run w ces) = fst (run (fst (run w (take k ces))) (drop k ces))"
    using run_append [of w "take k ces" "drop k ces"] by simp
  moreover obtain new where
    "history (objs (fst (run (fst (run w (take k ces))) (drop k ces))) r) =
       history (objs (fst (run w (take k ces))) r) @ new"
    using run_history [OF saves_ok_drop [OF assms, where k = k],
            where w = "fst (run w (take k ces))" and r = r]
    by blast
  ultimately show ?thesis by simp
qed

lemma intercepted_captures: "intercepted c \<Longrightarrow> captures c"
  by (cases c) simp_all

lemma fewer_intercepted:
  "length (filter (\<lambda>(c, e). intercepted c \<and> store_of c = r) ces)
     \<le> length (filter (\<lambda>(c, e). captures c \<and> store_of c = r) ces)"
proof (induction ces)
  case Nil
  show ?case by simp
next
  case (Cons ce ces)
  then show ?case by (cases ce) (auto dest: intercepted_captures)
qed

lemma captured_cong:
  "counter s = counter s' \<Longrightarrow> out_dir s = out_dir s' \<Longrightarrow> captured s r ces = captured s' r ces"
proof (induction ces arbitrary: s s')
  case Nil
  show ?case by simp
next
  case (Cons ce ces)
  obtain c e where ce: "ce = (c, e)" by (cases ce)
  from Cons.prems have "captured (s\<lparr>counter := counter s + 1\<rparr>) r ces =
      captured (s'\<lparr>counter := counter s' + 1\<rparr>) r ces"
    by (intro Cons.IH) simp_all
  moreover from Cons.prems have "captured s r ces = captured s' r ces"
    by (rule Cons.IH)
  ultimately show ?case using Cons.prems by (simp add: ce next_name_eq)
qed

lemma do_call_objs_fail:
  "isl (save_reply e) \<Longrightarrow> captures c \<Longrightarrow>
   objs (fst (do_call w e c)) =
     (objs w)(store_of c := (objs w (store_of c))\<lparr>counter := counter (objs w (store_of c)) + 1\<rparr>)"
  by (cases c; cases "screenshot w (store_of c) e (capture_label c)")
     (use screenshot_objs_fail [of e w "store_of c" "capture_label c"]
          screenshot_result [of w "store_of c" e "capture_label c"]
      in \<open>auto simp: op_defs emit_def Let_def split: sum.splits\<close>)

lemma do_call_store:
  "objs (fst (do_call w e c)) r =
     (if captures c \<and> store_of c = r
      then (objs w r)\<lparr>counter := counter (objs w r) + 1,
             history := history (objs w r) @
               (if isl (save_reply e) then []
                else [snd (next_name (objs w r) (clock e) (capture_label c))])\<rparr>
      else objs w r)"
proof (cases "captures c")
  case True
  then show ?thesis
    by (cases "isl (save_reply e)") (auto simp: do_call_objs do_call_objs_fail)
next
  case False
  with do_call_passes [of c w e] show ?thesis by simp
qed

lemma run_history_captured:
  "history (objs (fst (run w ces)) r) = history (objs w r) @ captured (objs w r) r ces"
proof (induction ces arbitrary: w)
  case Nil
  show ?case by simp
next
  case (Cons ce ces)
  obtain c e where ce: "ce = (c, e)" by (cases ce)
  let ?w1 = "fst (do_call w e c)"
  have ih: "history (objs (fst (run ?w1 ces)) r) = history (objs ?w1 r) @ captured (objs ?w1 r) r ces"
    by (rule Cons.IH)
  show ?case
  proof (cases "captures c \<and> store_of c = r")
    case True
    then have s1: "objs ?w1 r =
        (objs w r)\<lparr>counter := counter (objs w r) + 1,
             history := history (objs w r) @
               (if isl (save_reply e) then []
                else [snd (next_name (objs w r) (clock e) (capture_label c))])\<rparr>"
      by (simp add: do_call_store)
    have cc: "captured (objs ?w1 r) r ces =
        captured ((objs w r)\<lparr>counter := counter (objs w r) + 1\<rparr>) r ces"
      by (rule captured_cong) (simp_all add: s1)
    have capd: "captured (objs w r) r ((c, e) # ces) =
        (if isl (save_reply e) then []
         else [snd (next_name (objs w r) (clock e) (capture_label c))]) @
        captured ((objs w r)\<lparr>counter := counter (objs w r) + 1\<rparr>) r ces"
      using True by simp
    show ?thesis
      unfolding ce run_Cons_fst ih capd cc by (simp add: s1)
  next
    case False
    then have s1: "objs ?w1 r = objs w r" by (simp add: do_call_store)
    have capd: "captured (objs w r) r ((c, e) # ces) = captured (objs w r) r ces"
      using False by auto
    show ?thesis
      unfolding ce run_Cons_fst ih capd s1 ..
  qed
qed

lemma screenshot_ok_eq:
  "\<not> isl (save_reply e) \<Longrightarrow>
   screenshot w r e l =
     (w\<lparr>objs := (objs w)(r := (objs w r)\<lparr>counter := counter (objs w r) + 1,
            history := history (objs w r) @ [snd (next_name (objs w r) (clock e) l)]\<rparr>),
        trace := trace w @
          [SessionCall (driver (objs w r)) ''save_screenshot''
             ([PyStr (snd (next_name (objs w r) (clock e) l))], []),
           LogInfo (''Saved screenshot: '' @ snd (next_name (objs w r) (clock e) l))]\<rparr>,
      Inr (PyPath (snd (next_name (objs w r) (clock e) l))))"
  by (cases "save_reply e") (simp_all add: screenshot_def next_name_eq emit_def Let_def)

lemma get_ok: "\<not> isl (save_reply e) \<Longrightarrow> snd (get w r e url) = reply e"
  by (simp add: get_def screenshot_ok_eq emit_def)

lemma find_element_ok:
  "\<not> isl (save_reply e) \<Longrightarrow> reply e = Inr el \<Longrightarrow>
   snd (find_element w r e a l) = Inr (Wrapped el r l)"
  by (simp add: find_element_def screenshot_ok_eq emit_def)

lemma click_ok: "\<not> isl (save_reply e) \<Longrightarrow> snd (click w e el r l) = reply e"
  by (simp add: click_def screenshot_ok_eq emit_def)

lemma scenario_as_calls:
  assumes "\<not> isl (save_reply e1)" and "\<not> isl (save_reply e2)" and "\<not> isl (save_reply e3)"
    and "reply e1 = Inr v1" and "reply e2 = Inr v2" and "reply e3 = Inr v3"
  shows "scenario w r e1 e2 e3 e4 =
         do_call (fst (run w
           [(Get r ''https://example.test'', e1),
            (FindElement r ([PyStr ''css selector'', PyStr ''#box''], []) (Some ''box''), e2),
            (Click v2 r (Some ''box''), e3)])) e4 (Quit r)"
proof -
  define w1 where "w1 = fst (get w r e1 ''https://example.test'')"
  define w2 where
    "w2 = fst (find_element w1 r e2 ([PyStr ''css selector'', PyStr ''#box''], []) (Some ''box''))"
  define w3 where "w3 = fst (click w2 e3 v2 r (Some ''box''))"
  have g1: "get w r e1 ''https://example.test'' = (w1, Inr v1)"
    using get_ok [OF assms(1), of w r "''https://example.test''"] assms(4)
    by (simp add: w1_def prod_eq_iff)
  have g2: "find_element w1 r e2 ([PyStr ''css selector'', PyStr ''#box''], []) (Some ''box'') =
      (w2, Inr (Wrapped v2 r (Some ''box'')))"
    using find_element_ok [OF assms(2) assms(5), of w1 r _ "Some ''box''"]
    by (simp add: w2_def prod_eq_iff)
  have g3: "click w2 e3 v2 r (Some ''box'') = (w3, Inr v3)"
    using click_ok [OF assms(3), of w2 v2 r "Some ''box''"] assms(6)
    by (simp add: w3_def prod_eq_iff)
  have "scenario w r e1 e2 e3 e4 = quit w3 r e4"
    by (simp add: scenario_def g1 g2 g3)
  moreover have "fst (run w
           [(Get r ''https://example.test'', e1),
            (FindElement r ([PyStr ''css selector'', PyStr ''#box''], []) (Some ''box''), e2),
            (Click v2 r (Some ''box''), e3)]) = w3"
    by (simp add: g1 g2 g3)
  ultimately show ?thesis by simp
qed

lemma run_snoc: "fst (run w (ces @ [(c, e)])) = fst (do_call (fst (run w ces)) e c)"
  using run_append [of w ces "[(c, e)]"] by (simp add: case_prod_beta)

lemma new_sdriver_fresh:
  "\<not> isl mkdir_reply \<Longrightarrow>
   counter (objs (fst (new_sdriver w r d dir mkdir_reply)) r) = 0 \<and>
   history (objs (fst (new_sdriver w r d dir mkdir_reply)) r) = [] \<and>
   out_dir (objs (fst (new_sdriver w r d dir mkdir_reply)) r) = dir"
  by (cases mkdir_reply) (simp_all add: new_sdriver_def emit_def Let_def)

text \<open>
  Claim C2. A proxy starts with counter 0 and an empty history. After any sequence of
  calls in which every capture succeeds, its history is at least as long as the number
  of intercepted calls made on it, the sequence numbers of the history are exactly
  1 .. length, strictly increasing and without repeats, and the history after any prefix
  of the calls is a prefix of the final history (snapshots come in call order).
\<close>

theorem history_sequence_numbers:
  assumes "counter (objs w r) = 0" and "history (objs w r) = []" and "saves_ok ces"
  shows "length (filter (\<lambda>(c, e). intercepted c \<and> store_of c = r) ces)
           \<le> length (history (objs (fst (run w ces)) r)) \<and>
         map seq_of (history (objs (fst (run w ces)) r)) =
           [1..<Suc (length (history (objs (fst (run w ces)) r)))] \<and>
         sorted_wrt (<) (map seq_of (history (objs (fst (run w ces)) r))) \<and>
         distinct (map seq_of (history (objs (fst (run w ces)) r))) \<and>
         (\<forall>k. take (length (history (objs (fst (run w (take k ces))) r)))
                 (history (objs (fst (run w ces)) r)) =
               history (objs (fst (run w (take k ces))) r))"
proof -
  let ?h = "history (objs (fst (run w ces)) r)"
  from assms(1,2) have "store_ok (objs w r)" by (simp add: store_ok_def)
  with assms(3) have "store_ok (objs (fst (run w ces)) r)" by (rule run_store_ok)
  then have seqs: "map seq_of ?h = [1..<Suc (length ?h)]" by (simp add: store_ok_def)
  obtain new where "?h = history (objs w r) @ new"
    and "length new = length (filter (\<lambda>(c, e). captures c \<and> store_of c = r) ces)"
    using run_history [OF assms(3), where w = w and r = r] by blast
  with assms(2) have
    len: "length ?h = length (filter (\<lambda>(c, e). captures c \<and> store_of c = r) ces)"
    by simp
  from fewer_intercepted [of r ces] len have n: "length (filter (\<lambda>(c, e). intercepted c \<and> store_of c = r) ces) \<le> length ?h"
    by simp
  have sorted: "sorted_wrt (<) (map seq_of ?h)" by (simp only: seqs sorted_wrt_upt)
  have dist: "distinct (map seq_of ?h)" by (simp only: seqs distinct_upt)
  from n seqs sorted dist run_prefix [OF assms(3)] show ?thesis by blast
qed

lemmas eval_ops = run.simps do_call.simps op_defs screenshot_def emit_def Let_def scenario_def
  or_else_def fresh_world_def clock_at_def saves_ok_def

text \<open>
  A navigation, a forwarded call and a close whose delegated call raises: two
  intercepted calls, two snapshots, numbered 1 and 2.
\<close>

theorem history_sequence_numbers_witness:
  "length (filter (\<lambda>(c, e). intercepted c \<and> store_of c = 0)
      [(Get 0 ''https://example.test'',
          \<lparr>clock = clock_at 1000, save_reply = Inr (PyBool True), reply = Inr PyNone\<rparr>),
       (ImplicitlyWait 0 (PyInt 5),
          \<lparr>clock = clock_at 2000, save_reply = Inr PyNone, reply = Inr PyNone\<rparr>),
       (Quit 0,
          \<lparr>clock = clock_at 3000, save_reply = Inr (PyBool True),
           reply = Inl (Exn ''WebDriverException'')\<rparr>)]) = 2 \<and>
   history (objs (fst (run fresh_world
      [(Get 0 ''https://example.test'',
          \<lparr>clock = clock_at 1000, save_reply = Inr (PyBool True), reply = Inr PyNone\<rparr>),
       (ImplicitlyWait 0 (PyInt 5),
          \<lparr>clock = clock_at 2000, save_reply = Inr PyNone, reply = Inr PyNone\<rparr>),
       (Quit 0,
          \<lparr>clock = clock_at 3000, save_reply = Inr (PyBool True),
           reply = Inl (Exn ''WebDriverException'')\<rparr>)])) 0) =
     [''screenshots/0001_20261103_090507_001_before_get_https___example_test.png'',
      ''screenshots/0002_20261103_090507_003_before_quit.png''] \<and>
   map seq_of
     [''screenshots/0001_20261103_090507_001_before_get_https___example_test.png'',
      ''screenshots/0002_20261103_090507_003_before_quit.png''] =
     [1..<Suc (length
       [''screenshots/0001_20261103_090507_001_before_get_https___example_test.png'',
        ''screenshots/0002_20261103_090507_003_before_quit.png''])]"
proof -
  let ?ces = "[(Get 0 ''https://example.test'',
          \<lparr>clock = clock_at 1000, save_reply = Inr (PyBool True), reply = Inr PyNone\<rparr>),
       (ImplicitlyWait 0 (PyInt 5),
          \<lparr>clock = clock_at 2000, save_reply = Inr PyNone, reply = Inr PyNone\<rparr>),
       (Quit 0,
          \<lparr>clock = clock_at 3000, save_reply = Inr (PyBool True),
           reply = Inl (Exn ''WebDriverException'')\<rparr>)]"
  have h1: "counter (objs fresh_world 0) = 0" and h2: "history (objs fresh_world 0) = []"
    by (simp_all add: fresh_world_def)
  have h3: "saves_ok ?ces" by (simp add: saves_ok_def)
  have n: "length (filter (\<lambda>(c, e). intercepted c \<and> store_of c = 0) ?ces) = 2" by simp
  have h: "history (objs (fst (run fresh_world ?ces)) 0) =
     [''screenshots/0001_20261103_090507_001_before_get_https___example_test.png'',
      ''screenshots/0002_20261103_090507_003_before_quit.png'']"
    unfolding run_history_captured by (simp add: fresh_world_def clock_at_def eval_name)
  from history_sequence_numbers [OF h1 h2 h3]
  have "map seq_of (history (objs (fst (run fresh_world ?ces)) 0)) =
          [1..<Suc (length (history (objs (fst (run fresh_world ?ces)) 0)))]"
    by blast
  then have "map seq_of
     [''screenshots/0001_20261103_090507_001_before_get_https___example_test.png'',
      ''screenshots/0002_20261103_090507_003_before_quit.png''] =
     [1..<Suc (length
       [''screenshots/0001_20261103_090507_001_before_get_https___example_test.png'',
        ''screenshots/0002_20261103_090507_003_before_quit.png''])]"
    unfolding h .
  with n h show ?thesis by blast
qed

text \<open>
  Claim C6. When the capture of an intercepted operation succeeds and the delegated call
  raises, the operation raises the same exception, the snapshot is in the history of the
  proxy, and the collaborator was called once, after \<open>save_screenshot\<close>.
\<close>

theorem intercepted_raise_after_snapshot:
  assumes "intercepted c" and "\<not> isl (save_reply e)" and "reply e = Inl x"
  shows "snd (do_call w e c) = Inl x \<and>
         history (objs (fst (do_call w e c)) (store_of c)) =
           history (objs w (store_of c)) @
           [snd (next_name (objs w (store_of c)) (clock e) (capture_label c))] \<and>
         trace (fst (do_call w e c)) =
           trace w @
           [SessionCall (driver (objs w (store_of c))) ''save_screenshot''
              ([PyStr (snd (next_name (objs w (store_of c)) (clock e) (capture_label c)))], []),
            LogInfo (''Saved screenshot: '' @
              snd (next_name (objs w (store_of c)) (clock e) (capture_label c)))] @
           delegated (driver (objs w (store_of c))) c"
proof -
  from assms(1) have cap: "captures c" by (rule intercepted_captures)
  from assms have "snd (do_call w e c) = Inl x" by (rule do_call_raise)
  moreover from cap assms(2) have
    "history (objs (fst (do_call w e c)) (store_of c)) =
       history (objs w (store_of c)) @
       [snd (next_name (objs w (store_of c)) (clock e) (capture_label c))]"
    by (simp add: do_call_objs)
  moreover from cap assms(2) have
    "trace (fst (do_call w e c)) =
           trace w @
           [SessionCall (driver (objs w (store_of c))) ''save_screenshot''
              ([PyStr (snd (next_name (objs w (store_of c)) (clock e) (capture_label c)))], []),
            LogInfo (''Saved screenshot: '' @
              snd (next_name (objs w (store_of c)) (clock e) (capture_label c)))] @
           delegated (driver (objs w (store_of c))) c"
    by (simp add: do_call_trace)
  ultimately show ?thesis by blast
qed

text \<open>A lookup that raises, on a new proxy.\<close>

theorem intercepted_raise_after_snapshot_witness:
  "snd (do_call fresh_world
          \<lparr>clock = clock_at 1000, save_reply = Inr (PyBool True),
           reply = Inl (Exn ''NoSuchElementException'')\<rparr>
          (FindElement 0 ([PyStr ''id'', PyStr ''searchInput''], []) (Some ''search_input''))) =
     Inl (Exn ''NoSuchElementException'') \<and>
   history (objs (fst (do_call fresh_world
          \<lparr>clock = clock_at 1000, save_reply = Inr (PyBool True),
           reply = Inl (Exn ''NoSuchElementException'')\<rparr>
          (FindElement 0 ([PyStr ''id'', PyStr ''searchInput''], []) (Some ''search_input'')))) 0) =
     [''screenshots/0001_20261103_090507_001_search_input.png'']"
proof -
  let ?e = "\<lparr>clock = clock_at 1000, save_reply = Inr (PyBool True),
           reply = Inl (Exn ''NoSuchElementException'')\<rparr>"
  let ?c = "FindElement 0 ([PyStr ''id'', PyStr ''searchInput''], []) (Some ''search_input'')"
  have p: "history (objs fresh_world (store_of ?c)) @
           [snd (next_name (objs fresh_world (store_of ?c)) (clock ?e) (capture_label ?c))] =
           [''screenshots/0001_20261103_090507_001_search_input.png'']"
    by (simp add: eval_ops eval_name)
  have "intercepted ?c" and "\<not> isl (save_reply ?e)" and "reply ?e = Inl (Exn ''NoSuchElementException'')"
    by simp_all
  from intercepted_raise_after_snapshot [OF this, of fresh_world]
  show ?thesis unfolding p by simp
qed

text \<open>
  Claim C10, as the code has it. When \<open>save_screenshot\<close> raises, \<open>screenshot\<close>
  raises the same, the history is unchanged and the counter is one more: the failed
  capture has used up a number. A successful capture that follows it directly appends one
  path, numbered one more than the number used up, that is the counter before the failed
  capture plus two. Whenever the counter before the failed capture is the number of the
  last recorded snapshot, the new number is two more than that snapshot's, one number
  being skipped. The counter is the number of the last recorded snapshot after every
  successful capture, so this is the case when the failed capture comes directly after
  a successful one; it is not after another failed capture.
\<close>

theorem failed_capture_leaves_gap:
  assumes "save_reply e1 = Inl x" and "\<not> isl (save_reply e2)"
  shows "snd (screenshot w r e1 l1) = Inl x \<and>
         history (objs (fst (screenshot w r e1 l1)) r) = history (objs w r) \<and>
         counter (objs (fst (screenshot w r e1 l1)) r) = counter (objs w r) + 1 \<and>
         history (objs (fst (screenshot (fst (screenshot w r e1 l1)) r e2 l2)) r) =
           history (objs w r) @
           [snd (next_name (objs (fst (screenshot w r e1 l1)) r) (clock e2) l2)] \<and>
         seq_of (snd (next_name (objs (fst (screenshot w r e1 l1)) r) (clock e2) l2)) =
           counter (objs w r) + 2 \<and>
         (history (objs w r) \<noteq> [] \<and> seq_of (last (history (objs w r))) = counter (objs w r) \<longrightarrow>
            seq_of (snd (next_name (objs (fst (screenshot w r e1 l1)) r) (clock e2) l2)) =
              seq_of (last (history (objs w r))) + 2) \<and>
         (\<not> isl (save_reply e0) \<longrightarrow>
            history (objs (fst (screenshot v r e0 l0)) r) \<noteq> [] \<and>
            seq_of (last (history (objs (fst (screenshot v r e0 l0)) r))) =
              counter (objs (fst (screenshot v r e0 l0)) r))"
proof -
  from assms(1) have f: "isl (save_reply e1)" by simp
  have 1: "snd (screenshot w r e1 l1) = Inl x"
    using assms(1) by (simp add: screenshot_result)
  have o: "objs (fst (screenshot w r e1 l1)) r = (objs w r)\<lparr>counter := counter (objs w r) + 1\<rparr>"
    using f by (simp add: screenshot_objs_fail)
  have 4: "history (objs (fst (screenshot (fst (screenshot w r e1 l1)) r e2 l2)) r) =
           history (objs w r) @
           [snd (next_name (objs (fst (screenshot w r e1 l1)) r) (clock e2) l2)]"
    using assms(2) by (simp add: screenshot_objs_ok o)
  have 5: "seq_of (snd (next_name (objs (fst (screenshot w r e1 l1)) r) (clock e2) l2)) =
           counter (objs w r) + 2"
    by (simp add: seq_of_next_name o)
  have 6: "seq_of (snd (next_name (objs (fst (screenshot w r e1 l1)) r) (clock e2) l2)) =
           seq_of (last (history (objs w r))) + 2"
    if "seq_of (last (history (objs w r))) = counter (objs w r)"
    using that 5 by simp
  have 7: "history (objs (fst (screenshot v r e0 l0)) r) \<noteq> [] \<and>
           seq_of (last (history (objs (fst (screenshot v r e0 l0)) r))) =
             counter (objs (fst (screenshot v r e0 l0)) r)"
    if "\<not> isl (save_reply e0)"
    using that by (simp add: screenshot_objs_ok seq_of_next_name)
  from 1 o 4 5 6 7 show ?thesis by simp
qed

text \<open>
  A capture that succeeds on a new proxy and records the snapshot 1, a capture that
  fails, and a capture that succeeds: the history ends with the snapshot 3.
\<close>

theorem failed_capture_leaves_gap_witness:
  "history (objs (fst (screenshot fresh_world 0
         \<lparr>clock = clock_at 1000, save_reply = Inr (PyBool True), reply = Inr PyNone\<rparr> None)) 0) =
     [''screenshots/0001_20261103_090507_001_action.png''] \<and>
   snd (screenshot (fst (screenshot fresh_world 0
         \<lparr>clock = clock_at 1000, save_reply = Inr (PyBool True), reply = Inr PyNone\<rparr> None)) 0
         \<lparr>clock = clock_at 2000, save_reply = Inl (Exn ''WebDriverException''),
          reply = Inr PyNone\<rparr> None) = Inl (Exn ''WebDriverException'') \<and>
   history (objs (fst (screenshot (fst (screenshot fresh_world 0
         \<lparr>clock = clock_at 1000, save_reply = Inr (PyBool True), reply = Inr PyNone\<rparr> None)) 0
         \<lparr>clock = clock_at 2000, save_reply = Inl (Exn ''WebDriverException''),
          reply = Inr PyNone\<rparr> None)) 0) =
     [''screenshots/0001_20261103_090507_001_action.png''] \<and>
   counter (objs (fst (screenshot (fst (screenshot fresh_world 0
         \<lparr>clock = clock_at 1000, save_reply = Inr (PyBool True), reply = Inr PyNone\<rparr> None)) 0
         \<lparr>clock = clock_at 2000, save_reply = Inl (Exn ''WebDriverException''),
          reply = Inr PyNone\<rparr> None)) 0) = 2 \<and>
   history (objs (fst (screenshot (fst (screenshot (fst (screenshot fresh_world 0
         \<lparr>clock = clock_at 1000, save_reply = Inr (PyBool True), reply = Inr PyNone\<rparr> None)) 0
         \<lparr>clock = clock_at 2000, save_reply = Inl (Exn ''WebDriverException''),
          reply = Inr PyNone\<rparr> None)) 0
         \<lparr>clock = clock_at 3000, save_reply = Inr (PyBool True), reply = Inr PyNone\<rparr>
         None)) 0) =
     [''screenshots/0001_20261103_090507_001_action.png'',
      ''screenshots/0003_20261103_090507_003_action.png''] \<and>
   seq_of ''screenshots/0003_20261103_090507_003_action.png'' =
     seq_of ''screenshots/0001_20261103_090507_001_action.png'' + 2"
proof -
  let ?e0 = "\<lparr>clock = clock_at 1000, save_reply = Inr (PyBool True), reply = Inr PyNone\<rparr>"
  let ?e1 = "\<lparr>clock = clock_at 2000, save_reply = Inl (Exn ''WebDriverException''),
          reply = Inr PyNone\<rparr>"
  let ?e2 = "\<lparr>clock = clock_at 3000, save_reply = Inr (PyBool True), reply = Inr PyNone\<rparr>"
  let ?w = "fst (screenshot fresh_world 0 ?e0 None)"
  have s: "objs ?w 0 =
           \<lparr>driver = 0, out_dir = ''screenshots'', counter = 1,
            history = [''screenshots/0001_20261103_090507_001_action.png'']\<rparr>"
    by (simp add: screenshot_objs_ok) (simp add: fresh_world_def clock_at_def eval_name)
  have h: "history (objs ?w 0) = [''screenshots/0001_20261103_090507_001_action.png'']"
    and c: "counter (objs ?w 0) = 1"
    by (simp_all only: s sdriver.simps)
  have p: "snd (next_name (objs (fst (screenshot ?w 0 ?e1 None)) 0) (clock ?e2) None) =
           ''screenshots/0003_20261103_090507_003_action.png''"
    by (simp add: screenshot_objs_fail s) (simp add: clock_at_def eval_name)
  have "save_reply ?e1 = Inl (Exn ''WebDriverException'')" and "\<not> isl (save_reply ?e2)"
    by simp_all
  note gap = failed_capture_leaves_gap [where w = ?w and v = fresh_world and r = 0
      and ?e0.0 = ?e0 and ?e1.0 = ?e1 and ?e2.0 = ?e2
      and ?l0.0 = None and ?l1.0 = None and ?l2.0 = None, OF this]
  have e: "\<not> isl (save_reply ?e0)"
    by simp
  from gap e have lr: "seq_of (last (history (objs ?w 0))) = counter (objs ?w 0)"
    by blast
  from gap h have "history (objs ?w 0) \<noteq> []"
    by simp
  with gap lr
  have two: "seq_of (snd (next_name (objs (fst (screenshot ?w 0 ?e1 None)) 0) (clock ?e2) None)) =
             seq_of (last (history (objs ?w 0))) + 2"
    by blast
  from gap have r: "snd (screenshot ?w 0 ?e1 None) = Inl (Exn ''WebDriverException'')"
    and u: "history (objs (fst (screenshot ?w 0 ?e1 None)) 0) = history (objs ?w 0)"
    and k: "counter (objs (fst (screenshot ?w 0 ?e1 None)) 0) = counter (objs ?w 0) + 1"
    and a: "history (objs (fst (screenshot (fst (screenshot ?w 0 ?e1 None)) 0 ?e2 None)) 0) =
            history (objs ?w 0) @
            [snd (next_name (objs (fst (screenshot ?w 0 ?e1 None)) 0) (clock ?e2) None)]"
    by blast+
  from two have t: "seq_of ''screenshots/0003_20261103_090507_003_action.png'' =
      seq_of ''screenshots/0001_20261103_090507_001_action.png'' + 2"
    by (simp only: p h last.simps simp_thms if_True)
  from k have k2: "counter (objs (fst (screenshot ?w 0 ?e1 None)) 0) = 2"
    by (simp add: c)
  from a have a2: "history (objs (fst (screenshot (fst (screenshot ?w 0 ?e1 None)) 0 ?e2 None)) 0) =
      [''screenshots/0001_20261103_090507_001_action.png'',
       ''screenshots/0003_20261103_090507_003_action.png'']"
    by (simp only: p h append.simps)
  from u have u2: "history (objs (fst (screenshot ?w 0 ?e1 None)) 0) =
      [''screenshots/0001_20261103_090507_001_action.png'']"
    by (simp only: h)
  from h r u2 k2 a2 t show ?thesis
    by blast
qed

text \<open>
  Claim C10 as stated fails: after a recorded snapshot numbered 1 and a failed capture,
  the next successful capture is numbered 3, which is not one greater than 1.
\<close>

theorem failed_capture_counterexample:
  "history (objs (fst (run fresh_world
      [(Screenshot 0 None,
          \<lparr>clock = clock_at 1000, save_reply = Inr (PyBool True), reply = Inr PyNone\<rparr>)])) 0) =
     [''screenshots/0001_20261103_090507_001_action.png''] \<and>
   history (objs (fst (run fresh_world
      [(Screenshot 0 None,
          \<lparr>clock = clock_at 1000, save_reply = Inr (PyBool True), reply = Inr PyNone\<rparr>),
       (Screenshot 0 None,
          \<lparr>clock = clock_at 2000, save_reply = Inl (Exn ''WebDriverException''),
           reply = Inr PyNone\<rparr>),
       (Screenshot 0 None,
          \<lparr>clock = clock_at 3000, save_reply = Inr (PyBool True), reply = Inr PyNone\<rparr>)])) 0) =
     [''screenshots/0001_20261103_090507_001_action.png'',
      ''screenshots/0003_20261103_090507_003_action.png''] \<and>
   seq_of ''screenshots/0003_20261103_090507_003_action.png'' \<noteq>
     seq_of ''screenshots/0001_20261103_090507_001_action.png'' + 1"
  unfolding run_history_captured by (simp add: fresh_world_def clock_at_def eval_name)

text \<open>
  Claim C1. On a new proxy, when the four captures succeed and the first three delegated
  calls return, the scripted sequence leaves exactly four snapshots in the history: the
  paths \<open>_next_name\<close> builds at the counter values 1 to 4 for the labels
  \<open>before_get_https://example.test\<close>, \<open>box\<close>, \<open>box\<close> and \<open>before_quit\<close>, carrying
  the sequence numbers 1 to 4.
\<close>

theorem scenario_history:
  assumes "counter (objs w r) = 0" and "history (objs w r) = []"
    and "\<not> isl (save_reply e1)" and "\<not> isl (save_reply e2)"
    and "\<not> isl (save_reply e3)" and "\<not> isl (save_reply e4)"
    and "\<not> isl (reply e1)" and "\<not> isl (reply e2)" and "\<not> isl (reply e3)"
  shows "history (objs (fst (scenario w r e1 e2 e3 e4)) r) =
           [path_join (out_dir (objs w r))
              (artifact_name 1 (clock e1) (Some ''before_get_https://example.test'')),
            path_join (out_dir (objs w r)) (artifact_name 2 (clock e2) (Some ''box'')),
            path_join (out_dir (objs w r)) (artifact_name 3 (clock e3) (Some ''box'')),
            path_join (out_dir (objs w r)) (artifact_name 4 (clock e4) (Some ''before_quit''))] \<and>
         map seq_of (history (objs (fst (scenario w r e1 e2 e3 e4)) r)) = [1, 2, 3, 4]"
proof -
  obtain v1 v2 v3 where rs: "reply e1 = Inr v1" "reply e2 = Inr v2" "reply e3 = Inr v3"
    using assms(7-9) by (cases "reply e1"; cases "reply e2"; cases "reply e3") auto
  let ?ces = "[(Get r ''https://example.test'', e1),
            (FindElement r ([PyStr ''css selector'', PyStr ''#box''], []) (Some ''box''), e2),
            (Click v2 r (Some ''box''), e3)]"
  have "fst (scenario w r e1 e2 e3 e4) = fst (run w (?ces @ [(Quit r, e4)]))"
    unfolding run_snoc using scenario_as_calls [OF assms(3-5) rs] by simp
  then have "history (objs (fst (scenario w r e1 e2 e3 e4)) r) =
      history (objs w r) @ captured (objs w r) r (?ces @ [(Quit r, e4)])"
    by (simp only: run_history_captured)
  then have h: "history (objs (fst (scenario w r e1 e2 e3 e4)) r) =
           [path_join (out_dir (objs w r))
              (artifact_name 1 (clock e1) (Some ''before_get_https://example.test'')),
            path_join (out_dir (objs w r)) (artifact_name 2 (clock e2) (Some ''box'')),
            path_join (out_dir (objs w r)) (artifact_name 3 (clock e3) (Some ''box'')),
            path_join (out_dir (objs w r)) (artifact_name 4 (clock e4) (Some ''before_quit''))]"
    using assms(1-6) by (simp add: next_name_eq or_else_def truthy_def eval_nat_numeral)
  have "map seq_of (history (objs (fst (scenario w r e1 e2 e3 e4)) r)) = [1, 2, 3, 4]"
    unfolding h by (simp add: seq_of_artifact)
  with h show ?thesis by blast
qed

text \<open>The script on a new proxy with the default directory: the four file names.\<close>

theorem scenario_history_witness:
  "history (objs (fst (scenario fresh_world 0
      \<lparr>clock = clock_at 1000, save_reply = Inr (PyBool True), reply = Inr PyNone\<rparr>
      \<lparr>clock = clock_at 2000, save_reply = Inr (PyBool True), reply = Inr (Handle 7)\<rparr>
      \<lparr>clock = clock_at 3000, save_reply = Inr (PyBool True), reply = Inr PyNone\<rparr>
      \<lparr>clock = clock_at 4000, save_reply = Inr (PyBool True), reply = Inr PyNone\<rparr>)) 0) =
     [''screenshots/0001_20261103_090507_001_before_get_https___example_test.png'',
      ''screenshots/0002_20261103_090507_002_box.png'',
      ''screenshots/0003_20261103_090507_003_box.png'',
      ''screenshots/0004_20261103_090507_004_before_quit.png'']"
proof -
  let ?e1 = "\<lparr>clock = clock_at 1000, save_reply = Inr (PyBool True), reply = Inr PyNone\<rparr>"
  let ?e2 = "\<lparr>clock = clock_at 2000, save_reply = Inr (PyBool True), reply = Inr (Handle 7)\<rparr>"
  let ?e3 = "\<lparr>clock = clock_at 3000, save_reply = Inr (PyBool True), reply = Inr PyNone\<rparr>"
  let ?e4 = "\<lparr>clock = clock_at 4000, save_reply = Inr (PyBool True), reply = Inr PyNone\<rparr>"
  have p: "[path_join (out_dir (objs fresh_world 0))
              (artifact_name 1 (clock ?e1) (Some ''before_get_https://example.test'')),
            path_join (out_dir (objs fresh_world 0)) (artifact_name 2 (clock ?e2) (Some ''box'')),
            path_join (out_dir (objs fresh_world 0)) (artifact_name 3 (clock ?e3) (Some ''box'')),
            path_join (out_dir (objs fresh_world 0))
              (artifact_name 4 (clock ?e4) (Some ''before_quit''))] =
     [''screenshots/0001_20261103_090507_001_before_get_https___example_test.png'',
      ''screenshots/0002_20261103_090507_002_box.png'',
      ''screenshots/0003_20261103_090507_003_box.png'',
      ''screenshots/0004_20261103_090507_004_before_quit.png'']"
    by (simp add: fresh_world_def clock_at_def eval_name)
  have "counter (objs fresh_world 0) = 0" and "history (objs fresh_world 0) = []"
    and "\<not> isl (save_reply ?e1)" and "\<not> isl (save_reply ?e2)"
    and "\<not> isl (save_reply ?e3)" and "\<not> isl (save_reply ?e4)"
    and "\<not> isl (reply ?e1)" and "\<not> isl (reply ?e2)" and "\<not> isl (reply ?e3)"
    by (simp_all add: fresh_world_def)
  from scenario_history [OF this, unfolded p] show ?thesis by blast
qed

text \<open>
  Claim C3, as the code has it. A capability whose name Python does not find on the
  proxy itself reaches \<open>__getattr__\<close>: the attribute of the wrapped session or element
  is read and returned as it is, and nothing else changes, so no snapshot is added and no
  counter moves. The names found on the proxy are those its class defines in the source
  (the intercepted operations, \<open>implicitly_wait\<close>, \<open>screenshot\<close>, \<open>_next_name\<close>,
  the fields, \<open>__init__\<close>, \<open>__getattr__\<close> and the docstring \<open>__doc__\<close>) and those
  Python gives every object (\<open>builtin\<close>: \<open>__class__\<close>, \<open>__dict__\<close>,
  \<open>__repr__\<close>, ...). \<open>implicitly_wait\<close> forwards its argument in the same way.
\<close>

theorem forwarded_calls_transparent:
  "(item \<notin> set sdriver_members \<and> \<not> builtin item \<longrightarrow>
      sdriver_attr builtin w r e item =
        Some (w\<lparr>trace := trace w @ [SessionAttr (driver (objs w r)) item]\<rparr>, reply e)) \<and>
   (item \<notin> set element_members \<and> \<not> builtin item \<longrightarrow>
      element_attr builtin w e el r label item =
        Some (w\<lparr>trace := trace w @ [ElementAttr el item]\<rparr>, reply e)) \<and>
   implicitly_wait w r e seconds =
     (w\<lparr>trace := trace w @
        [SessionCall (driver (objs w r)) ''implicitly_wait'' ([seconds], [])]\<rparr>, reply e)"
  by (simp add: sdriver_attr_def element_attr_def sdriver_getattr_def element_getattr_def
        implicitly_wait_def emit_def)

text \<open>
  The attributes \<open>title\<close> of a session and \<open>text\<close> of an element, with the names
  that CPython 3.11 gives every object.
\<close>

theorem forwarded_calls_transparent_witness:
  "sdriver_attr python_builtin fresh_world 0
      \<lparr>clock = clock_at 1000, save_reply = Inr PyNone, reply = Inr (PyStr ''Wikipedia'')\<rparr>
      ''title'' =
     Some (fresh_world\<lparr>trace := trace fresh_world @
              [SessionAttr (driver (objs fresh_world 0)) ''title'']\<rparr>,
           Inr (PyStr ''Wikipedia'')) \<and>
   element_attr python_builtin fresh_world
      \<lparr>clock = clock_at 1000, save_reply = Inr PyNone, reply = Inr (PyStr ''Wikipedia'')\<rparr>
      (Handle 7) 0 (Some ''box'') ''text'' =
     Some (fresh_world\<lparr>trace := trace fresh_world @ [ElementAttr (Handle 7) ''text'']\<rparr>,
           Inr (PyStr ''Wikipedia''))"
proof -
  have 1: "''title'' \<notin> set sdriver_members \<and> \<not> python_builtin ''title''"
    and 2: "''text'' \<notin> set element_members \<and> \<not> python_builtin ''text''"
    by (simp_all add: sdriver_members_def element_members_def python_builtin_def
          object_members_def)
  from 1 forwarded_calls_transparent [where item = "''title''" and builtin = python_builtin
      and w = fresh_world and r = 0
      and e = "\<lparr>clock = clock_at 1000, save_reply = Inr PyNone,
                reply = Inr (PyStr ''Wikipedia'')\<rparr>"]
  have a: "sdriver_attr python_builtin fresh_world 0
      \<lparr>clock = clock_at 1000, save_reply = Inr PyNone, reply = Inr (PyStr ''Wikipedia'')\<rparr>
      ''title'' =
     Some (fresh_world\<lparr>trace := trace fresh_world @
              [SessionAttr (driver (objs fresh_world 0)) ''title'']\<rparr>,
           Inr (PyStr ''Wikipedia''))"
    by simp
  from 2 forwarded_calls_transparent [where item = "''text''" and builtin = python_builtin
      and w = fresh_world and r = 0
      and e = "\<lparr>clock = clock_at 1000, save_reply = Inr PyNone,
                reply = Inr (PyStr ''Wikipedia'')\<rparr>"
      and el = "Handle 7" and label = "Some ''box''"]
  have b: "element_attr python_builtin fresh_world
      \<lparr>clock = clock_at 1000, save_reply = Inr PyNone, reply = Inr (PyStr ''Wikipedia'')\<rparr>
      (Handle 7) 0 (Some ''box'') ''text'' =
     Some (fresh_world\<lparr>trace := trace fresh_world @ [ElementAttr (Handle 7) ''text'']\<rparr>,
           Inr (PyStr ''Wikipedia''))"
    by simp
  from a b show ?thesis by blast
qed

text \<open>
  Claim C3 as stated fails for names that every wrapped session and element has and that
  Python finds on the proxy first. \<open>__doc__\<close>, \<open>__class__\<close> and \<open>__repr__\<close> are
  none of the intercepted operations; the wrapped session would answer
  \<open>selenium WebDriver\<close> here, but the lookup on either proxy ends at the proxy (its own
  docstring, class and \<open>repr\<close>), \<open>__getattr__\<close> is not called and the wrapped object
  is never asked.
\<close>

theorem proxy_answers_itself_counterexample:
  "sdriver_attr python_builtin fresh_world 0
      \<lparr>clock = clock_at 1000, save_reply = Inr (PyBool True),
       reply = Inr (PyStr ''selenium WebDriver'')\<rparr> ''__doc__'' = None \<and>
   sdriver_attr python_builtin fresh_world 0
      \<lparr>clock = clock_at 1000, save_reply = Inr (PyBool True),
       reply = Inr (PyStr ''selenium WebDriver'')\<rparr> ''__doc__'' \<noteq>
     Some (sdriver_getattr fresh_world 0
      \<lparr>clock = clock_at 1000, save_reply = Inr (PyBool True),
       reply = Inr (PyStr ''selenium WebDriver'')\<rparr> ''__doc__'') \<and>
   snd (sdriver_getattr fresh_world 0
      \<lparr>clock = clock_at 1000, save_reply = Inr (PyBool True),
       reply = Inr (PyStr ''selenium WebDriver'')\<rparr> ''__doc__'') =
     Inr (PyStr ''selenium WebDriver'') \<and>
   sdriver_attr python_builtin fresh_world 0
      \<lparr>clock = clock_at 1000, save_reply = Inr (PyBool True),
       reply = Inr (PyStr ''selenium WebDriver'')\<rparr> ''__class__'' = None \<and>
   sdriver_attr python_builtin fresh_world 0
      \<lparr>clock = clock_at 1000, save_reply = Inr (PyBool True),
       reply = Inr (PyStr ''selenium WebDriver'')\<rparr> ''__repr__'' = None \<and>
   element_attr python_builtin fresh_world
      \<lparr>clock = clock_at 1000, save_reply = Inr (PyBool True),
       reply = Inr (PyStr ''selenium WebDriver'')\<rparr> (Handle 7) 0 None ''__doc__'' = None \<and>
   element_attr python_builtin fresh_world
      \<lparr>clock = clock_at 1000, save_reply = Inr (PyBool True),
       reply = Inr (PyStr ''selenium WebDriver'')\<rparr> (Handle 7) 0 None ''__class__'' = None"
  by (simp add: sdriver_attr_def element_attr_def sdriver_members_def element_members_def
        python_builtin_def object_members_def sdriver_getattr_def)

section \<open>The annotation pipeline\<close>

lemma path_name_no_slash: "CHR ''/'' \<notin> set (path_name p)"
  using set_takeWhileD [of "CHR ''/''" "\<lambda>c. c \<noteq> CHR ''/''" "rev p"]
  by (auto simp: path_name_def)

lemma path_dir_sep: "path_dir p = [] \<or> last (path_dir p) = CHR ''/''"
proof (cases "dropWhile (\<lambda>c. c \<noteq> CHR ''/'') (rev p)")
  case Nil
  then show ?thesis by (simp add: path_dir_def)
next
  case (Cons x xs)
  then have "x = CHR ''/''"
    using hd_dropWhile [of "\<lambda>c. c \<noteq> CHR ''/''" "rev p"] by simp
  with Cons show ?thesis by (simp add: path_dir_def)
qed

lemma path_dir_name: "path_dir p @ path_name p = p"
proof -
  have "rev (path_name p) @ rev (path_dir p) = rev p"
    by (simp add: path_name_def path_dir_def)
  then have "rev (path_dir p @ path_name p) = rev p" by simp
  then show ?thesis by (simp only: rev_is_rev_conv)
qed

lemma path_name_dir_append:
  assumes "CHR ''/'' \<notin> set n"
  shows "path_name (path_dir p @ n) = n"
  using path_name_after_sep [OF assms path_dir_sep] .

lemma path_dir_dir_append:
  assumes "CHR ''/'' \<notin> set n"
  shows "path_dir (path_dir p @ n) = path_dir p"
proof -
  have "path_dir (path_dir p @ n) @ path_name (path_dir p @ n) = path_dir p @ n"
    by (rule path_dir_name)
  then show ?thesis by (simp add: path_name_dir_append [OF assms])
qed

lemma annotated_part_no_slash: "CHR ''/'' \<notin> set (''annotated_'' @ path_name p)"
  using path_name_no_slash [of p] by simp

lemma with_name_Inr:
  assumes "with_name p n = Inr q"
  shows "q = path_dir p @ n \<and> CHR ''/'' \<notin> set n \<and> n \<noteq> []"
  using assms by (auto simp: with_name_def split: if_splits)

lemma annotated_not_snapshot:
  assumes "with_name p (''annotated_'' @ path_name p) = Inr q"
  shows "\<not> snapshot_path q"
proof -
  from with_name_Inr [OF assms] have q: "q = path_dir p @ ''annotated_'' @ path_name p" by simp
  have "path_name q = ''annotated_'' @ path_name p"
    unfolding q using path_name_dir_append [OF annotated_part_no_slash] by simp
  then show ?thesis by (simp add: snapshot_path_def isdigit_def)
qed

lemma with_name_snapshot:
  assumes "snapshot_path p"
  shows "with_name p (''annotated_'' @ path_name p) = Inr (annotated_name p)"
proof -
  from assms obtain c cs where n: "path_name p = c # cs" and c: "isdigit c"
    by (auto simp: snapshot_path_def split: list.splits)
  from c have "c \<noteq> CHR ''.''" by (auto simp: isdigit_def)
  with n have "path_name p \<noteq> [] \<and> path_name p \<noteq> ''.''" by auto
  moreover have "CHR ''/'' \<notin> set (''annotated_'' @ path_name p)"
    by (rule annotated_part_no_slash)
  ultimately show ?thesis by (simp add: with_name_def annotated_name_def)
qed

lemma annotated_name_parts:
  "path_dir (annotated_name p) = path_dir p \<and>
   path_name (annotated_name p) = ''annotated_'' @ path_name p"
  unfolding annotated_name_def
  using path_dir_dir_append [OF annotated_part_no_slash, of p p]
        path_name_dir_append [OF annotated_part_no_slash, of p p]
  by simp

lemma draw_results_drawn:
  "drawn (draw_results img ds) = drawn img @ concat (map placements ds) \<and>
   pixels (draw_results img ds) = pixels img"
proof (induction ds arbitrary: img)
  case Nil
  show ?case by simp
next
  case (Cons d ds)
  obtain p0 p1 p2 p3 s c where d: "d = ((p0, p1, p2, p3), s, c)"
    by (cases d) auto
  show ?case
    by (simp add: d Cons.IH placements_def cv2_rectangle_def cv2_putText_def Let_def)
qed

lemma annotate_unread:
  "fs p = None \<Longrightarrow>
   annotate fs reader (p # ps) =
     (fst (annotate fs reader ps),
      Annotating p # CouldNotRead p # fst (snd (annotate fs reader ps)),
      snd (snd (annotate fs reader ps)))"
  by (simp add: case_prod_beta)

lemma annotate_stop_reader:
  "fs p = Some img \<Longrightarrow> reader p img = Inl x \<Longrightarrow>
   annotate fs reader (p # ps) = (fs, [Annotating p], Some x)"
  by simp

lemma annotate_stop_name:
  "fs p = Some img \<Longrightarrow> reader p img = Inr ds \<Longrightarrow>
   with_name p (''annotated_'' @ path_name p) = Inl x \<Longrightarrow>
   annotate fs reader (p # ps) = (fs, [Annotating p], Some x)"
  by (simp add: Let_def)

lemma annotate_write:
  "fs p = Some img \<Longrightarrow> reader p img = Inr ds \<Longrightarrow>
   with_name p (''annotated_'' @ path_name p) = Inr ap \<Longrightarrow>
   annotate fs reader (p # ps) =
     (fst (annotate (fs(ap \<mapsto> draw_results img ds)) reader ps),
      Annotating p # Imwrite ap (draw_results img ds) # SavedAnnotated ap #
        fst (snd (annotate (fs(ap \<mapsto> draw_results img ds)) reader ps)),
      snd (snd (annotate (fs(ap \<mapsto> draw_results img ds)) reader ps)))"
  by (simp add: case_prod_beta Let_def)

lemma annotate_agree:
  "(\<forall>p \<in> set h. fs p = fs' p) \<Longrightarrow> snd (annotate fs' reader h) = snd (annotate fs reader h)"
proof (induction fs reader h arbitrary: fs' rule: annotate.induct)
  case (1 fs reader)
  show ?case by simp
next
  case (2 fs reader img_path rest)
  from "2.prems" have here: "fs' img_path = fs img_path"
    and rest: "\<forall>p \<in> set rest. fs p = fs' p" by simp_all
  show ?case
  proof (cases "fs img_path")
    case None
    from here None have None': "fs' img_path = None" by simp
    from "2.IH"(1) [OF None rest] show ?thesis
      unfolding annotate_unread [where fs = fs and p = img_path, OF None] annotate_unread [where fs = fs' and p = img_path, OF None'] by simp
  next
    case (Some img)
    with here have Some': "fs' img_path = Some img" by simp
    show ?thesis
    proof (cases "reader img_path img")
      case (Inl x)
      show ?thesis
        unfolding annotate_stop_reader [where fs = fs and p = img_path and reader = reader, OF Some Inl] annotate_stop_reader [where fs = fs' and p = img_path and reader = reader, OF Some' Inl] by simp
    next
      case (Inr results)
      show ?thesis
      proof (cases "with_name img_path (''annotated_'' @ path_name img_path)")
        case (Inl x)
        show ?thesis
          unfolding annotate_stop_name [where fs = fs and p = img_path and reader = reader, OF Some Inr Inl] annotate_stop_name [where fs = fs' and p = img_path and reader = reader, OF Some' Inr Inl]
          by simp
      next
        case ap: (Inr annotated_path)
        from rest have "\<forall>p \<in> set rest.
            (fs(annotated_path \<mapsto> draw_results img results)) p =
            (fs'(annotated_path \<mapsto> draw_results img results)) p"
          by simp
        from "2.IH"(2) [OF Some Inr refl ap this] show ?thesis
          unfolding annotate_write [where fs = fs and p = img_path and reader = reader, OF Some Inr ap] annotate_write [where fs = fs' and p = img_path and reader = reader, OF Some' Inr ap]
          by (simp add: fun_upd_def)
      qed
    qed
  qed
qed

lemma annotate_untouched:
  "snapshot_path q \<Longrightarrow> fst (annotate fs reader h) q = fs q"
proof (induction fs reader h rule: annotate.induct)
  case (1 fs reader)
  show ?case by simp
next
  case (2 fs reader img_path rest)
  show ?case
  proof (cases "fs img_path")
    case None
    from "2.IH"(1) [OF None "2.prems"] show ?thesis
      unfolding annotate_unread [where fs = fs and p = img_path, OF None] by simp
  next
    case (Some img)
    show ?thesis
    proof (cases "reader img_path img")
      case (Inl x)
      show ?thesis unfolding annotate_stop_reader [where fs = fs and p = img_path and reader = reader, OF Some Inl] by simp
    next
      case (Inr results)
      show ?thesis
      proof (cases "with_name img_path (''annotated_'' @ path_name img_path)")
        case (Inl x)
        show ?thesis unfolding annotate_stop_name [where fs = fs and p = img_path and reader = reader, OF Some Inr Inl] by simp
      next
        case ap: (Inr annotated_path)
        from annotated_not_snapshot [OF ap] "2.prems" have "annotated_path \<noteq> q" by auto
        with "2.IH"(2) [OF Some Inr refl ap "2.prems"] show ?thesis
          unfolding annotate_write [where fs = fs and p = img_path and reader = reader, OF Some Inr ap]
          by (simp add: fun_upd_def)
      qed
    qed
  qed
qed

lemma annotate_files:
  "fst (annotate fs reader h) = fs ++ map_of (rev (written (fst (snd (annotate fs reader h)))))"
proof (induction fs reader h rule: annotate.induct)
  case (1 fs reader)
  show ?case by simp
next
  case (2 fs reader img_path rest)
  show ?case
  proof (cases "fs img_path")
    case None
    from "2.IH"(1) [OF None] show ?thesis
      unfolding annotate_unread [where fs = fs and p = img_path, OF None] by simp
  next
    case (Some img)
    show ?thesis
    proof (cases "reader img_path img")
      case (Inl x)
      show ?thesis unfolding annotate_stop_reader [where fs = fs and p = img_path and reader = reader, OF Some Inl] by simp
    next
      case (Inr results)
      show ?thesis
      proof (cases "with_name img_path (''annotated_'' @ path_name img_path)")
        case (Inl x)
        show ?thesis unfolding annotate_stop_name [where fs = fs and p = img_path and reader = reader, OF Some Inr Inl] by simp
      next
        case ap: (Inr annotated_path)
        have "fst (annotate (fs(annotated_path \<mapsto> draw_results img results)) reader rest) =
            fs(annotated_path \<mapsto> draw_results img results) ++
            map_of (rev (written (fst (snd
              (annotate (fs(annotated_path \<mapsto> draw_results img results)) reader rest)))))"
          using "2.IH"(2) [OF Some Inr refl ap] by (simp add: fun_upd_def)
        then show ?thesis
          unfolding annotate_write [where fs = fs and p = img_path and reader = reader, OF Some Inr ap]
          by simp
      qed
    qed
  qed
qed

lemma annotate_outputs:
  assumes "\<forall>p \<in> set h. snapshot_path p"
    and "\<forall>p \<in> set h. \<forall>img. fs p = Some img \<longrightarrow> \<not> isl (reader p img)"
  shows "snd (snd (annotate fs reader h)) = None \<and>
         written (fst (snd (annotate fs reader h))) =
           map (\<lambda>p. (annotated_name p, draw_results (the (fs p)) (projr (reader p (the (fs p))))))
             (filter (\<lambda>p. fs p \<noteq> None) h) \<and>
         load_failures (fst (snd (annotate fs reader h))) = filter (\<lambda>p. fs p = None) h"
  using assms
proof (induction fs reader h rule: annotate.induct)
  case (1 fs reader)
  show ?case by simp
next
  case (2 fs reader img_path rest)
  from "2.prems" have snap: "snapshot_path img_path" and snaps: "\<forall>p \<in> set rest. snapshot_path p"
    and det: "\<forall>img. fs img_path = Some img \<longrightarrow> \<not> isl (reader img_path img)"
    and dets: "\<forall>p \<in> set rest. \<forall>img. fs p = Some img \<longrightarrow> \<not> isl (reader p img)"
    by simp_all
  show ?case
  proof (cases "fs img_path")
    case None
    from "2.IH"(1) [OF None snaps dets] None show ?thesis
      unfolding annotate_unread [where fs = fs and p = img_path, OF None] by simp
  next
    case (Some img)
    with det obtain results where Inr: "reader img_path img = Inr results"
      by (cases "reader img_path img") auto
    have ap: "with_name img_path (''annotated_'' @ path_name img_path) = Inr (annotated_name img_path)"
      using snap by (rule with_name_snapshot)
    let ?fs = "fs(annotated_name img_path \<mapsto> draw_results img results)"
    have fresh: "annotated_name img_path \<notin> set rest"
      using annotated_not_snapshot [OF ap] snaps by auto
    then have dets': "\<forall>p \<in> set rest. \<forall>img. ?fs p = Some img \<longrightarrow> \<not> isl (reader p img)"
      using dets by auto
    have f1: "filter (\<lambda>p. ?fs p \<noteq> None) rest = filter (\<lambda>p. fs p \<noteq> None) rest"
      by (rule filter_cong) (use fresh in auto)
    have f2: "filter (\<lambda>p. ?fs p = None) rest = filter (\<lambda>p. fs p = None) rest"
      by (rule filter_cong) (use fresh in auto)
    have m: "map (\<lambda>p. (annotated_name p, draw_results (the (?fs p)) (projr (reader p (the (?fs p))))))
               (filter (\<lambda>p. fs p \<noteq> None) rest) =
             map (\<lambda>p. (annotated_name p, draw_results (the (fs p)) (projr (reader p (the (fs p))))))
               (filter (\<lambda>p. fs p \<noteq> None) rest)"
      by (rule map_cong) (use fresh in auto)
    have ih: "snd (snd (annotate ?fs reader rest)) = None \<and>
         written (fst (snd (annotate ?fs reader rest))) =
           map (\<lambda>p. (annotated_name p, draw_results (the (?fs p)) (projr (reader p (the (?fs p))))))
             (filter (\<lambda>p. ?fs p \<noteq> None) rest) \<and>
         load_failures (fst (snd (annotate ?fs reader rest))) = filter (\<lambda>p. ?fs p = None) rest"
      using "2.IH"(2) [OF Some Inr refl ap snaps] dets' by (simp add: fun_upd_def)
    from ih Some Inr show ?thesis
      unfolding annotate_write [where fs = fs and p = img_path and reader = reader, OF Some Inr ap]
        f1 f2 m
      by simp
  qed
qed

lemma map_add_twice: "(m ++ n) ++ n = m ++ n"
  by (rule ext) (simp add: map_add_def split: option.splits)

lemma captured_snapshot_paths: "p \<in> set (captured s r ces) \<Longrightarrow> snapshot_path p"
proof (induction ces arbitrary: s)
  case Nil
  then show ?case by simp
next
  case (Cons ce ces)
  obtain c e where ce: "ce = (c, e)" by (cases ce)
  from Cons.prems Cons.IH show ?case
    by (auto simp: ce next_name_eq snapshot_path_artifact split: if_splits)
qed

text \<open>The histories the proxy builds consist of snapshot paths.\<close>

lemma run_history_snapshot_paths:
  assumes "\<forall>p \<in> set (history (objs w r)). snapshot_path p"
  shows "\<forall>p \<in> set (history (objs (fst (run w ces)) r)). snapshot_path p"
  using assms captured_snapshot_paths [of _ "objs w r" r ces]
  by (auto simp: run_history_captured)

lemmas eval_annotate = example_history_def example_files_def example_reader_def
  snapshot_path_def annotated_name_def path_name_def path_dir_def isdigit_def

text \<open>
  Claim C5. For a history of snapshot paths and a reader that does not raise, the loop
  ends without an exception; it writes one image for every snapshot whose file could be
  read and none for the others, in the order of the history; it logs one load failure
  for every snapshot it could not read; and every image is written under
  \<open>annotated_\<close> followed by the file name of its snapshot, in the directory of the
  snapshot.
\<close>

theorem annotation_skips_unreadable:
  assumes "\<forall>p \<in> set h. snapshot_path p"
    and "\<forall>p \<in> set h. \<forall>img. fs p = Some img \<longrightarrow> \<not> isl (reader p img)"
  shows "snd (snd (annotate fs reader h)) = None \<and>
         map fst (written (fst (snd (annotate fs reader h)))) =
           map annotated_name (filter (\<lambda>p. fs p \<noteq> None) h) \<and>
         length (written (fst (snd (annotate fs reader h)))) =
           length (filter (\<lambda>p. fs p \<noteq> None) h) \<and>
         load_failures (fst (snd (annotate fs reader h))) = filter (\<lambda>p. fs p = None) h \<and>
         (\<forall>p. path_dir (annotated_name p) = path_dir p \<and>
              path_name (annotated_name p) = ''annotated_'' @ path_name p)"
proof -
  note out = annotate_outputs [OF assms]
  from out have "map fst (written (fst (snd (annotate fs reader h)))) =
           map annotated_name (filter (\<lambda>p. fs p \<noteq> None) h)"
    by (simp add: comp_def)
  moreover from out have "length (written (fst (snd (annotate fs reader h)))) =
           length (filter (\<lambda>p. fs p \<noteq> None) h)"
    by simp
  ultimately show ?thesis using out annotated_name_parts by blast
qed

text \<open>
  Three snapshots, the file of the second missing: two annotated images, for the first
  and the third, and one load failure.
\<close>

theorem annotation_skips_unreadable_witness:
  "snd (snd (annotate example_files example_reader example_history)) = None \<and>
   map fst (written (fst (snd (annotate example_files example_reader example_history)))) =
     [''screenshots/annotated_0001_20261103_090507_001_before_get.png'',
      ''screenshots/annotated_0003_20261103_090507_003_before_quit.png''] \<and>
   load_failures (fst (snd (annotate example_files example_reader example_history))) =
     [''screenshots/0002_20261103_090507_002_search_input.png'']"
proof -
  have 1: "\<forall>p \<in> set example_history. snapshot_path p"
    by (simp add: eval_annotate)
  have 2: "\<forall>p \<in> set example_history. \<forall>img. example_files p = Some img \<longrightarrow>
             \<not> isl (example_reader p img)"
    by (simp add: example_reader_def)
  have a: "map annotated_name (filter (\<lambda>p. example_files p \<noteq> None) example_history) =
     [''screenshots/annotated_0001_20261103_090507_001_before_get.png'',
      ''screenshots/annotated_0003_20261103_090507_003_before_quit.png'']"
    by (simp add: eval_annotate)
  have b: "filter (\<lambda>p. example_files p = None) example_history =
     [''screenshots/0002_20261103_090507_002_search_input.png'']"
    by (simp add: eval_annotate)
  from annotation_skips_unreadable [OF 1 2, unfolded a b] show ?thesis by blast
qed

text \<open>
  Claim C9. Running the loop again on the files the first run left, with the same reader,
  gives the same log, so the same images with the same rectangles and texts are written
  to the same paths, and leaves the files as they were after the first run. What is drawn
  on an image is a function of the detections alone, appended to what was drawn before.
\<close>

theorem annotation_idempotent:
  assumes "\<forall>p \<in> set h. snapshot_path p"
  shows "snd (annotate (fst (annotate fs reader h)) reader h) = snd (annotate fs reader h) \<and>
         fst (annotate (fst (annotate fs reader h)) reader h) = fst (annotate fs reader h) \<and>
         drawn (draw_results img ds) = drawn img @ concat (map placements ds)"
proof -
  have "\<forall>p \<in> set h. fs p = fst (annotate fs reader h) p"
    using assms by (simp add: annotate_untouched)
  then have same: "snd (annotate (fst (annotate fs reader h)) reader h) = snd (annotate fs reader h)"
    by (rule annotate_agree)
  have "fst (annotate (fst (annotate fs reader h)) reader h) =
          fst (annotate fs reader h) ++
          map_of (rev (written (fst (snd (annotate (fst (annotate fs reader h)) reader h)))))"
    by (rule annotate_files)
  also have "\<dots> = fst (annotate fs reader h) ++
          map_of (rev (written (fst (snd (annotate fs reader h)))))"
    by (simp only: same)
  also have "\<dots> = (fs ++ map_of (rev (written (fst (snd (annotate fs reader h)))))) ++
          map_of (rev (written (fst (snd (annotate fs reader h)))))"
    using annotate_files [of fs reader h] by simp
  also have "\<dots> = fs ++ map_of (rev (written (fst (snd (annotate fs reader h)))))"
    by (rule map_add_twice)
  also have "\<dots> = fst (annotate fs reader h)"
    by (rule annotate_files [symmetric])
  finally have files: "fst (annotate (fst (annotate fs reader h)) reader h) = fst (annotate fs reader h)" .
  from same files draw_results_drawn [of img ds] show ?thesis by blast
qed

text \<open>The two runs on the example history.\<close>

theorem annotation_idempotent_witness:
  "snd (annotate (fst (annotate example_files example_reader example_history))
          example_reader example_history) =
     snd (annotate example_files example_reader example_history) \<and>
   fst (annotate (fst (annotate example_files example_reader example_history))
          example_reader example_history) =
     fst (annotate example_files example_reader example_history)"
proof -
  have 1: "\<forall>p \<in> set example_history. snapshot_path p"
    by (simp add: eval_annotate)
  from annotation_idempotent [OF 1, of example_files example_reader] show ?thesis by blast
qed

text \<open>
  Claim C7, as the code has it. For a detection the loop draws a rectangle from the first
  corner to the third, each coordinate converted by \<open>int\<close> (truncated towards zero, so
  unchanged when it is integral), and then the text at the same horizontal position, ten
  pixels above the first corner.
\<close>

theorem detection_placement:
  "drawn (draw_results img [((p0, p1, p2, p3), s, c)]) =
     drawn img @
     [Rectangle (py_int (fst p0), py_int (snd p0)) (py_int (fst p2), py_int (snd p2))
        (0, 255, 0) 2,
      PutText s (py_int (fst p0), py_int (snd p0) - 10) FONT_HERSHEY_SIMPLEX (6 / 10)
        (0, 255, 0) 2] \<and>
   py_int (of_int a) = a \<and>
   py_int (snd p0) - 10 < py_int (snd p0)"
  by (simp add: cv2_rectangle_def cv2_putText_def py_int_def Let_def)

text \<open>The detection of the specification's scenario.\<close>

theorem detection_placement_example:
  "drawn (draw_results \<lparr>pixels = 0, drawn = []\<rparr>
            [(((10, 10), (50, 10), (50, 30), (10, 30)), ''OK'', 9 / 10)]) =
     [Rectangle (10, 10) (50, 30) (0, 255, 0) 2,
      PutText ''OK'' (10, 0) FONT_HERSHEY_SIMPLEX (6 / 10) (0, 255, 0) 2]"
  using detection_placement [of "\<lparr>pixels = 0, drawn = []\<rparr>" "(10, 10)" "(50, 10)" "(50, 30)"
      "(10, 30)" "''OK''" "9 / 10"]
  by (simp add: py_int_def)

lemma py_int_halves: "py_int (21 / 2) = 10" "py_int (101 / 2) = 50" "py_int (61 / 2) = 30"
  by (simp_all add: py_int_def floor_eq_iff)

text \<open>
  Claim C7 as stated fails for corners that are not integral: the corners of the
  rectangle are the truncated coordinates, not the corner points.
\<close>

theorem detection_fraction_counterexample:
  "drawn (draw_results \<lparr>pixels = 0, drawn = []\<rparr>
            [(((21 / 2, 21 / 2), (101 / 2, 21 / 2), (101 / 2, 61 / 2), (21 / 2, 61 / 2)),
              ''OK'', 9 / 10)]) =
     [Rectangle (10, 10) (50, 30) (0, 255, 0) 2,
      PutText ''OK'' (10, 0) FONT_HERSHEY_SIMPLEX (6 / 10) (0, 255, 0) 2] \<and>
   (rat_of_int 10, rat_of_int 10) \<noteq> (21 / 2, 21 / 2) \<and>
   (rat_of_int 50, rat_of_int 30) \<noteq> (101 / 2, 61 / 2)"
  by (simp add: cv2_rectangle_def cv2_putText_def Let_def py_int_halves)

end
